theory Spec2Isabelle
  imports Main "HOL-Library.Multiset"
begin

section \<open>Data model (lib/types.ts)\<close>

text \<open>
  The card game Ongdu: nine cards are arranged into three layers of three cards.
  The sources hold two variants of \<^verbatim>\<open>game-logic.ts\<close>: \<^verbatim>\<open>lib/game-logic.ts\<close>, and a later one
  (\<^verbatim>\<open>unnamed/part_002\<close>) that adds \<^verbatim>\<open>getHandPoints\<close>, the \<^verbatim>\<open>isSameSuit\<close> flag, the rule that a
  wildcard makes a sum hand a 9, and \<^verbatim>\<open>hasSpecialHand\<close>. The specification follows the
  later variant, and so do the definitions of the game logic here; the computer opponent
  is \<^verbatim>\<open>lib/ai.ts\<close>. JavaScript numbers are integers throughout this code and are modelled
  as \<open>int\<close>; \<^verbatim>\<open>-Infinity\<close> gets a constructor of its own.
\<close>

datatype Suit = hearts | diamonds | clubs | spades | wild

datatype Rank = R2 | R3 | R4 | R5 | R6 | R7 | R8 | R9 | R10 | RJ | RQ | RK | RA | WILD

text \<open>The field \<^verbatim>\<open>id\<close> of a card is \<open>cardId\<close> here, that of a player \<open>playerIdent\<close>.\<close>

record Card =
  cardId :: string
  suit :: Suit
  rank :: Rank
  isWild :: bool

record Layer =
  cards :: "Card option list"

text \<open>The fields \<^verbatim>\<open>top\<close>, \<^verbatim>\<open>middle\<close>, \<^verbatim>\<open>bottom\<close> of an arrangement.\<close>

record PlayerArrangement =
  topLayer :: Layer
  middleLayer :: Layer
  bottomLayer :: Layer

record Player =
  playerIdent :: string
  name :: string
  isHuman :: bool
  cash :: int
  hand :: "Card list"
  arrangement :: "PlayerArrangement option"
  isReady :: bool
  isBankrupt :: bool

datatype HandType =
  THREE_OF_KIND_PURE | STRAIGHT_FLUSH_JQK | STRAIGHT_JQK
  | THREE_OF_KIND_WILD | THREE_FACE_CARDS | SUM_MODULO

text \<open>The numbers of the enum \<^verbatim>\<open>HandType\<close>: 1 is the strongest category.\<close>

fun typeNumber :: "HandType \<Rightarrow> int" where
  "typeNumber THREE_OF_KIND_PURE = 1"
| "typeNumber STRAIGHT_FLUSH_JQK = 2"
| "typeNumber STRAIGHT_JQK = 3"
| "typeNumber THREE_OF_KIND_WILD = 4"
| "typeNumber THREE_FACE_CARDS = 5"
| "typeNumber SUM_MODULO = 6"

text \<open>
  A hand evaluation: the fields \<^verbatim>\<open>type\<close> and \<^verbatim>\<open>value\<close> are \<open>handType\<close> and
  \<open>handValue\<close>; the optional \<^verbatim>\<open>isSameSuit\<close> is \<open>None\<close> where the code leaves it out.
\<close>

record HandEvaluation =
  handType :: HandType
  handValue :: int
  description :: string
  isSameSuit :: "bool option"

datatype LayerName = LTop | LMiddle | LBottom

record LayerComparison =
  layer :: LayerName
  player1Score :: int
  player2Score :: int
  winner :: "string option"

record MatchupResult =
  player1Id :: string
  player2Id :: string
  layerComparisons :: "LayerComparison list"
  player1TotalPoints :: int
  player2TotalPoints :: int
  player1Foul :: bool
  player2Foul :: bool


section \<open>Hand evaluation (game-logic.ts, later variant)\<close>

fun getRankValue :: "Rank \<Rightarrow> int" where
  "getRankValue WILD = 0"
| "getRankValue R2 = 2" | "getRankValue R3 = 3" | "getRankValue R4 = 4"
| "getRankValue R5 = 5" | "getRankValue R6 = 6" | "getRankValue R7 = 7"
| "getRankValue R8 = 8" | "getRankValue R9 = 9" | "getRankValue R10 = 10"
| "getRankValue RJ = 10" | "getRankValue RQ = 10" | "getRankValue RK = 10"
| "getRankValue RA = 1"

fun getComparisonRankValue :: "Rank \<Rightarrow> int" where
  "getComparisonRankValue WILD = 0"
| "getComparisonRankValue R2 = 2" | "getComparisonRankValue R3 = 3"
| "getComparisonRankValue R4 = 4" | "getComparisonRankValue R5 = 5"
| "getComparisonRankValue R6 = 6" | "getComparisonRankValue R7 = 7"
| "getComparisonRankValue R8 = 8" | "getComparisonRankValue R9 = 9"
| "getComparisonRankValue R10 = 10" | "getComparisonRankValue RJ = 11"
| "getComparisonRankValue RQ = 12" | "getComparisonRankValue RK = 13"
| "getComparisonRankValue RA = 14"

definition isFaceCard :: "Rank \<Rightarrow> bool" where
  "isFaceCard r = (r = RJ \<or> r = RQ \<or> r = RK)"

definition isJQKStraight :: "Card list \<Rightarrow> bool" where
  "isJQKStraight cs =
     (let nonWildCards = filter (\<lambda>c. \<not> isWild c) cs;
          wildCount = length (filter (\<lambda>c. isWild c) cs);
          ranks = map rank nonWildCards;
          needed = filter (\<lambda>r. r \<notin> set ranks) [RJ, RQ, RK]
      in length needed \<le> wildCount \<and> list_all (\<lambda>c. isFaceCard (rank c)) nonWildCards)"

definition isJQKStraightFlush :: "Card list \<Rightarrow> bool" where
  "isJQKStraightFlush cs =
     (if \<not> isJQKStraight cs then False
      else let nonWildCards = filter (\<lambda>c. \<not> isWild c) cs in
        if length nonWildCards = 0 then True
        else let s = suit (nonWildCards ! 0) in list_all (\<lambda>c. suit c = s) nonWildCards)"

definition isThreeFaceCards :: "Card list \<Rightarrow> bool" where
  "isThreeFaceCards cs = list_all (\<lambda>c. isWild c \<or> isFaceCard (rank c)) cs"

definition isSameSuitCards :: "Card list \<Rightarrow> bool" where
  "isSameSuitCards cs =
     (let nonWildCards = filter (\<lambda>c. \<not> isWild c) cs in
        if length nonWildCards \<le> 1 then True
        else let s = suit (nonWildCards ! 0) in list_all (\<lambda>c. suit c = s) nonWildCards)"

text \<open>The result object of \<^verbatim>\<open>isThreeOfKind\<close>; its field \<^verbatim>\<open>isThreeOfKind\<close> is \<open>isThree\<close>.\<close>

record ThreeOfKind =
  isThree :: bool
  hasWild :: bool
  rankValue :: int

text \<open>
  \<^verbatim>\<open>isThreeOfKind\<close> is called on three cards only (after the guard of \<^verbatim>\<open>evaluateHand\<close>),
  so with \<open>wildCount\<close> wildcards the list of the others has \<open>3 - wildCount\<close> elements and
  every index read below is in range.
\<close>

definition isThreeOfKind :: "Card list \<Rightarrow> ThreeOfKind" where
  "isThreeOfKind cs =
     (let nonWildCards = filter (\<lambda>c. \<not> isWild c) cs;
          wildCount = length (filter (\<lambda>c. isWild c) cs)
      in if wildCount = 3 then \<lparr>isThree = True, hasWild = True, rankValue = 0\<rparr>
         else if wildCount = 2 then
           \<lparr>isThree = True, hasWild = True,
            rankValue = getComparisonRankValue (rank (nonWildCards ! 0))\<rparr>
         else if wildCount = 1 then
           (if rank (nonWildCards ! 0) = rank (nonWildCards ! 1) then
              \<lparr>isThree = True, hasWild = True,
               rankValue = getComparisonRankValue (rank (nonWildCards ! 0))\<rparr>
            else \<lparr>isThree = False, hasWild = False, rankValue = 0\<rparr>)
         else if rank (nonWildCards ! 0) = rank (nonWildCards ! 1)
                 \<and> rank (nonWildCards ! 1) = rank (nonWildCards ! 2) then
           \<lparr>isThree = True, hasWild = False,
            rankValue = getComparisonRankValue (rank (nonWildCards ! 0))\<rparr>
         else \<lparr>isThree = False, hasWild = False, rankValue = 0\<rparr>)"

definition getSumModulo :: "Card list \<Rightarrow> int" where
  "getSumModulo cs =
     foldl (\<lambda>acc c. if isWild c then acc else acc + getRankValue (rank c)) 0 cs mod 10"

text \<open>The strings of the template literals: a rank as written in the source, a number in decimal.\<close>

fun rankString :: "Rank \<Rightarrow> string" where
  "rankString R2 = ''2''" | "rankString R3 = ''3''" | "rankString R4 = ''4''"
| "rankString R5 = ''5''" | "rankString R6 = ''6''" | "rankString R7 = ''7''"
| "rankString R8 = ''8''" | "rankString R9 = ''9''" | "rankString R10 = ''10''"
| "rankString RJ = ''J''" | "rankString RQ = ''Q''" | "rankString RK = ''K''"
| "rankString RA = ''A''" | "rankString WILD = ''WILD''"

fun digitChar :: "nat \<Rightarrow> char" where
  "digitChar n = (''0123456789'' ! (n mod 10))"

fun natString :: "nat \<Rightarrow> string" where
  "natString n = (if n < 10 then [digitChar n] else natString (n div 10) @ [digitChar n])"

declare natString.simps [simp del]

definition numberString :: "int \<Rightarrow> string" where
  "numberString i = (if i < 0 then ''-'' @ natString (nat (- i)) else natString (nat i))"

text \<open>\<^verbatim>\<open>filter(c => c !== null) as Card[]\<close>: the placed cards of a slot array.\<close>

fun nonNull :: "Card option list \<Rightarrow> Card list" where
  "nonNull [] = []"
| "nonNull (None # cs) = nonNull cs"
| "nonNull (Some c # cs) = c # nonNull cs"

text \<open>
  \<^verbatim>\<open>evaluateHand\<close> checks at run time that it got three cards and no \<^verbatim>\<open>null\<close>, so
  its argument is a slot array; its callers pass placed cards (\<open>map Some\<close> of them).
\<close>

definition evaluateHand :: "Card option list \<Rightarrow> HandEvaluation" where
  "evaluateHand slots =
     (if length slots \<noteq> 3 \<or> list_ex (\<lambda>c. c = None) slots then
        \<lparr>handType = SUM_MODULO, handValue = 0, description = ''Invalid hand'',
         isSameSuit = None\<rparr>
      else
        let cs = nonNull slots; threeOfKind = isThreeOfKind cs in
        if isThree threeOfKind \<and> \<not> hasWild threeOfKind then
          \<lparr>handType = THREE_OF_KIND_PURE, handValue = rankValue threeOfKind,
           description = ''Three of a kind: '' @ rankString (rank (cs ! 0)) @ ''s'',
           isSameSuit = None\<rparr>
        else if isJQKStraightFlush cs then
          \<lparr>handType = STRAIGHT_FLUSH_JQK, handValue = 100,
           description = ''Straight Flush J-Q-K'', isSameSuit = None\<rparr>
        else if isJQKStraight cs then
          \<lparr>handType = STRAIGHT_JQK, handValue = 100,
           description = ''Straight J-Q-K'', isSameSuit = None\<rparr>
        else if isThree threeOfKind \<and> hasWild threeOfKind then
          \<lparr>handType = THREE_OF_KIND_WILD, handValue = rankValue threeOfKind,
           description = ''Three of a kind (with wild): '' @ numberString (rankValue threeOfKind),
           isSameSuit = None\<rparr>
        else if isThreeFaceCards cs then
          \<lparr>handType = THREE_FACE_CARDS,
           handValue = foldl (\<lambda>s c. s + getComparisonRankValue (rank c)) 0 cs,
           description = ''Three face cards'', isSameSuit = None\<rparr>
        else
          let hasWildcard = list_ex (\<lambda>c. isWild c) cs; sameSuit = isSameSuitCards cs in
          if hasWildcard then
            \<lparr>handType = SUM_MODULO, handValue = 9,
             description = (if sameSuit then ''Sum: 9 (wild, same suit)'' else ''Sum: 9 (wild)''),
             isSameSuit = Some sameSuit\<rparr>
          else
            let sumMod = getSumModulo cs in
            \<lparr>handType = SUM_MODULO, handValue = sumMod,
             description = (if sameSuit then ''Sum: '' @ numberString sumMod @ '' (same suit)''
                            else ''Sum: '' @ numberString sumMod),
             isSameSuit = Some sameSuit\<rparr>)"

text \<open>\<^verbatim>\<open>getHandPoints\<close>: the \<^verbatim>\<open>default\<close> branch of the switch has no enum value left.\<close>

fun getHandPoints :: "HandEvaluation \<Rightarrow> int" where
  "getHandPoints h =
     (case handType h of
        THREE_OF_KIND_PURE \<Rightarrow> 5
      | THREE_OF_KIND_WILD \<Rightarrow> 5
      | STRAIGHT_FLUSH_JQK \<Rightarrow> 3
      | STRAIGHT_JQK \<Rightarrow> 3
      | THREE_FACE_CARDS \<Rightarrow> 3
      | SUM_MODULO \<Rightarrow> (if isSameSuit h = Some True then 3 else 1))"

text \<open>\<^verbatim>\<open>compareHands\<close>: 1 if the first hand wins, -1 if the second wins, 0 for a tie.\<close>

definition compareHands :: "HandEvaluation \<Rightarrow> HandEvaluation \<Rightarrow> int" where
  "compareHands hand1 hand2 =
     (if handType hand1 \<noteq> handType hand2 then
        (if typeNumber (handType hand1) < typeNumber (handType hand2) then 1 else - 1)
      else if handType hand1 = STRAIGHT_FLUSH_JQK \<or> handType hand1 = STRAIGHT_JQK then 0
      else if handType hand1 = THREE_OF_KIND_PURE \<or> handType hand1 = THREE_OF_KIND_WILD
              \<or> handType hand1 = THREE_FACE_CARDS then
        (if handValue hand1 > handValue hand2 then 1
         else if handValue hand1 < handValue hand2 then - 1 else 0)
      else if handValue hand1 > handValue hand2 then 1
      else if handValue hand1 < handValue hand2 then - 1
      else 0)"

section \<open>Arrangements, special hands and matchups (game-logic.ts, later variant)\<close>

definition validateArrangement :: "PlayerArrangement \<Rightarrow> bool" where
  "validateArrangement a =
     (let topCards = nonNull (cards (topLayer a));
          middleCards = nonNull (cards (middleLayer a));
          bottomCards = nonNull (cards (bottomLayer a))
      in if length topCards \<noteq> 3 \<or> length middleCards \<noteq> 3 \<or> length bottomCards \<noteq> 3 then False
         else
           let topEval = evaluateHand (map Some topCards);
               middleEval = evaluateHand (map Some middleCards);
               bottomEval = evaluateHand (map Some bottomCards)
           in if compareHands topEval middleEval > 0 then False
              else if compareHands middleEval bottomEval > 0 then False
              else True)"

definition createEmptyArrangement :: "PlayerArrangement" where
  "createEmptyArrangement =
     \<lparr>topLayer = \<lparr>cards = [None, None, None]\<rparr>,
      middleLayer = \<lparr>cards = [None, None, None]\<rparr>,
      bottomLayer = \<lparr>cards = [None, None, None]\<rparr>\<rparr>"

definition getCardsFromArrangement :: "PlayerArrangement \<Rightarrow> Card list" where
  "getCardsFromArrangement a =
     nonNull (cards (topLayer a) @ cards (middleLayer a) @ cards (bottomLayer a))"

text \<open>
  The body of the loop over the layers in \<^verbatim>\<open>checkAllNines\<close> (and, with the same text, in
  \<^verbatim>\<open>isAllNinesArrangement\<close> of ai.ts): \<open>False\<close> where the loop returns false.
\<close>

definition layerAllNines :: "Layer \<Rightarrow> bool" where
  "layerAllNines l =
     (let cs = nonNull (cards l) in
        if length cs \<noteq> 3 then False
        else if list_ex (\<lambda>c. isWild c) cs then False
        else let e = evaluateHand (map Some cs) in
          if handType e \<noteq> SUM_MODULO \<or> handValue e < 9 then False else True)"

definition checkAllNines :: "Player \<Rightarrow> bool" where
  "checkAllNines player =
     (case arrangement player of
        None \<Rightarrow> False
      | Some a \<Rightarrow> list_all layerAllNines [topLayer a, middleLayer a, bottomLayer a])"

text \<open>
  The object \<^verbatim>\<open>rankCounts\<close>, keyed by rank, as an association list in insertion order;
  \<^verbatim>\<open>(rankCounts[card.rank] || 0) + 1\<close> is the step of the loop over the cards.
\<close>

fun setCount :: "Rank \<Rightarrow> int \<Rightarrow> (Rank \<times> int) list \<Rightarrow> (Rank \<times> int) list" where
  "setCount r n [] = [(r, n)]"
| "setCount r n ((k, v) # kvs) = (if k = r then (k, n) # kvs else (k, v) # setCount r n kvs)"

definition countRank :: "(Rank \<times> int) list \<Rightarrow> Card \<Rightarrow> (Rank \<times> int) list" where
  "countRank rankCounts c =
     (if \<not> isWild c then
        setCount (rank c)
          ((case map_of rankCounts (rank c) of None \<Rightarrow> 0 | Some n \<Rightarrow> n) + 1) rankCounts
      else rankCounts)"

definition fourOfAKindIn :: "Card list \<Rightarrow> bool" where
  "fourOfAKindIn allCards =
     (let rankCounts = foldl countRank [] allCards
      in list_ex (\<lambda>count. count \<ge> 4) (map snd rankCounts))"

definition checkFourOfAKind :: "Player \<Rightarrow> bool" where
  "checkFourOfAKind player =
     (case arrangement player of
        None \<Rightarrow> False
      | Some a \<Rightarrow> fourOfAKindIn (getCardsFromArrangement a))"

definition hasSpecialHand :: "Player \<Rightarrow> bool" where
  "hasSpecialHand player = (checkAllNines player \<or> checkFourOfAKind player)"

definition getLayer :: "LayerName \<Rightarrow> PlayerArrangement \<Rightarrow> Layer" where
  "getLayer l a = (case l of LTop \<Rightarrow> topLayer a | LMiddle \<Rightarrow> middleLayer a | LBottom \<Rightarrow> bottomLayer a)"

text \<open>
  One round of the loop over the layers in \<^verbatim>\<open>compareArrangements\<close>. The loop is reached
  only when neither player fouls, so both arrangements are there (the source asserts it
  with \<^verbatim>\<open>arrangement!\<close>).
\<close>

definition compareLayer :: "Player \<Rightarrow> Player \<Rightarrow> MatchupResult \<Rightarrow> LayerName \<Rightarrow> MatchupResult" where
  "compareLayer player1 player2 result l =
     (let p1Cards = nonNull (cards (getLayer l (the (arrangement player1))));
          p2Cards = nonNull (cards (getLayer l (the (arrangement player2))));
          p1Eval = evaluateHand (map Some p1Cards);
          p2Eval = evaluateHand (map Some p2Cards);
          comparison = compareHands p1Eval p2Eval;
          winningEval = (if comparison > 0 then Some p1Eval
                         else if comparison < 0 then Some p2Eval else None);
          pointsAwarded = (case winningEval of Some e \<Rightarrow> getHandPoints e | None \<Rightarrow> 0);
          layerResult =
            \<lparr>layer = l, player1Score = handValue p1Eval, player2Score = handValue p2Eval,
             winner = (if comparison > 0 then Some (playerIdent player1)
                       else if comparison < 0 then Some (playerIdent player2) else None)\<rparr>;
          pushed = result\<lparr>layerComparisons := layerComparisons result @ [layerResult]\<rparr>
      in if comparison > 0 then
           pushed\<lparr>player1TotalPoints := player1TotalPoints pushed + pointsAwarded\<rparr>
         else if comparison < 0 then
           pushed\<lparr>player2TotalPoints := player2TotalPoints pushed + pointsAwarded\<rparr>
         else pushed)"

definition compareArrangements :: "Player \<Rightarrow> Player \<Rightarrow> MatchupResult" where
  "compareArrangements player1 player2 =
     (let foul1 = (case arrangement player1 of
                     Some a \<Rightarrow> \<not> validateArrangement a | None \<Rightarrow> True);
          foul2 = (case arrangement player2 of
                     Some a \<Rightarrow> \<not> validateArrangement a | None \<Rightarrow> True);
          result =
            \<lparr>player1Id = playerIdent player1, player2Id = playerIdent player2,
             layerComparisons = [], player1TotalPoints = 0, player2TotalPoints = 0,
             player1Foul = foul1, player2Foul = foul2\<rparr>;
          p1SpecialHand = (\<not> player1Foul result \<and> hasSpecialHand player1);
          p2SpecialHand = (\<not> player2Foul result \<and> hasSpecialHand player2)
      in if p1SpecialHand \<and> p2SpecialHand then result
         else if p1SpecialHand then result\<lparr>player1TotalPoints := 10\<rparr>
         else if p2SpecialHand then result\<lparr>player2TotalPoints := 10\<rparr>
         else if player1Foul result \<and> player2Foul result then result
         else if player1Foul result then result\<lparr>player2TotalPoints := 10\<rparr>
         else if player2Foul result then result\<lparr>player1TotalPoints := 10\<rparr>
         else foldl (compareLayer player1 player2) result [LTop, LMiddle, LBottom])"

section \<open>Round scores (game-logic.ts, both variants)\<close>







section \<open>The computer opponent (lib/ai.ts)\<close>

definition isAllNinesArrangement :: "PlayerArrangement \<Rightarrow> bool" where
  "isAllNinesArrangement a = list_all layerAllNines [topLayer a, middleLayer a, bottomLayer a]"

definition hasFourOfAKindArrangement :: "PlayerArrangement \<Rightarrow> bool" where
  "hasFourOfAKindArrangement a =
     fourOfAKindIn (nonNull (cards (topLayer a) @ cards (middleLayer a) @ cards (bottomLayer a)))"

definition hasSpecialHandArrangement :: "PlayerArrangement \<Rightarrow> bool" where
  "hasSpecialHandArrangement a = (isAllNinesArrangement a \<or> hasFourOfAKindArrangement a)"

text \<open>A score is a number or \<^verbatim>\<open>-Infinity\<close>; \<open>scoreGreater x y\<close> is \<^verbatim>\<open>x > y\<close>.\<close>

datatype Score = NegInfinity | Num int

fun scoreGreater :: "Score \<Rightarrow> Score \<Rightarrow> bool" where
  "scoreGreater NegInfinity y = False"
| "scoreGreater (Num x) NegInfinity = True"
| "scoreGreater (Num x) (Num y) = (x > y)"

definition handScore :: "HandEvaluation \<Rightarrow> int" where
  "handScore e = (let typeScore = (7 - typeNumber (handType e)) * 100 in typeScore + handValue e)"

definition scoreArrangement :: "PlayerArrangement \<Rightarrow> Score" where
  "scoreArrangement a =
     (let topCards = nonNull (cards (topLayer a));
          middleCards = nonNull (cards (middleLayer a));
          bottomCards = nonNull (cards (bottomLayer a))
      in if length topCards \<noteq> 3 \<or> length middleCards \<noteq> 3 \<or> length bottomCards \<noteq> 3
         then NegInfinity
         else if \<not> validateArrangement a then NegInfinity
         else if hasSpecialHandArrangement a then Num 10000
         else
           let topEval = evaluateHand (map Some topCards);
               middleEval = evaluateHand (map Some middleCards);
               bottomEval = evaluateHand (map Some bottomCards)
           in Num (handScore topEval + handScore middleEval + handScore bottomEval))"

text \<open>
  The six nested loops of \<^verbatim>\<open>findBestArrangement\<close>, in their order: the index triples of
  the bottom layer, and for each the positions in \<^verbatim>\<open>remaining1\<close> of the middle layer.
\<close>

definition indices :: "nat list" where
  "indices = [0, 1, 2, 3, 4, 5, 6, 7, 8]"

definition bottomChoices :: "nat list list" where
  "bottomChoices =
     concat (map (\<lambda>b1. concat (map (\<lambda>b2. map (\<lambda>b3. [b1, b2, b3]) [b2 + 1 ..< 9])
                                  [b1 + 1 ..< 8])) [0 ..< 7])"

definition middleChoices :: "(nat \<times> nat \<times> nat) list" where
  "middleChoices =
     concat (map (\<lambda>m1. concat (map (\<lambda>m2. map (\<lambda>m3. (m1, m2, m3)) [m2 + 1 ..< 6])
                                  [m1 + 1 ..< 5])) [0 ..< 4])"

text \<open>The arrangement built in the innermost loop; all indices are below 9, the length of the hand.\<close>

definition candidate :: "Card list \<Rightarrow> nat list \<Rightarrow> nat \<times> nat \<times> nat \<Rightarrow> PlayerArrangement" where
  "candidate cs bottomIndices m =
     (case m of (m1, m2, m3) \<Rightarrow>
        let remaining1 = filter (\<lambda>i. i \<notin> set bottomIndices) indices;
            middleIndices = [remaining1 ! m1, remaining1 ! m2, remaining1 ! m3];
            topIndices = filter (\<lambda>i. i \<notin> set middleIndices) remaining1
        in \<lparr>topLayer = \<lparr>cards = map (\<lambda>i. Some (cs ! i)) topIndices\<rparr>,
            middleLayer = \<lparr>cards = map (\<lambda>i. Some (cs ! i)) middleIndices\<rparr>,
            bottomLayer = \<lparr>cards = map (\<lambda>i. Some (cs ! i)) bottomIndices\<rparr>\<rparr>)"

definition candidates :: "Card list \<Rightarrow> PlayerArrangement list" where
  "candidates cs = concat (map (\<lambda>b. map (candidate cs b) middleChoices) bottomChoices)"

text \<open>The state of the search is \<^verbatim>\<open>bestArrangement\<close> and \<^verbatim>\<open>bestScore\<close>.\<close>

definition considerArrangement ::
  "PlayerArrangement option \<times> Score \<Rightarrow> PlayerArrangement \<Rightarrow> PlayerArrangement option \<times> Score" where
  "considerArrangement best a =
     (let score = scoreArrangement a in
        if scoreGreater score (snd best) then (Some a, score) else best)"

fun getCardSortValue :: "Card \<Rightarrow> int" where
  "getCardSortValue c =
     (if isWild c then 15
      else case rank c of
        R2 \<Rightarrow> 2 | R3 \<Rightarrow> 3 | R4 \<Rightarrow> 4 | R5 \<Rightarrow> 5 | R6 \<Rightarrow> 6 | R7 \<Rightarrow> 7 | R8 \<Rightarrow> 8 | R9 \<Rightarrow> 9
      | R10 \<Rightarrow> 10 | RJ \<Rightarrow> 11 | RQ \<Rightarrow> 12 | RK \<Rightarrow> 13 | RA \<Rightarrow> 14 | WILD \<Rightarrow> 0)"

text \<open>
  The comparator of the sort in \<^verbatim>\<open>createSimpleArrangement\<close> puts the cards that are not
  wild first, by descending sort value, and the wildcards last; the sort is stable. That
  is the stable sort by the key below, ascending.
\<close>

definition simpleSortKey :: "Card \<Rightarrow> int" where
  "simpleSortKey c = (if isWild c then 1 else - getCardSortValue c)"

definition createSimpleArrangement :: "Card list \<Rightarrow> PlayerArrangement" where
  "createSimpleArrangement cs =
     (let sorted = sort_key simpleSortKey cs;
          arr = \<lparr>topLayer = \<lparr>cards = [Some (sorted ! 6), Some (sorted ! 7), Some (sorted ! 8)]\<rparr>,
                 middleLayer = \<lparr>cards = [Some (sorted ! 3), Some (sorted ! 4), Some (sorted ! 5)]\<rparr>,
                 bottomLayer = \<lparr>cards = [Some (sorted ! 0), Some (sorted ! 1), Some (sorted ! 2)]\<rparr>\<rparr>
      in if validateArrangement arr then arr
         else
           let reversed =
                 \<lparr>topLayer = \<lparr>cards = [Some (sorted ! 0), Some (sorted ! 1), Some (sorted ! 2)]\<rparr>,
                  middleLayer = \<lparr>cards = [Some (sorted ! 3), Some (sorted ! 4), Some (sorted ! 5)]\<rparr>,
                  bottomLayer = \<lparr>cards = [Some (sorted ! 6), Some (sorted ! 7), Some (sorted ! 8)]\<rparr>\<rparr>
           in if validateArrangement reversed then reversed
              else \<lparr>topLayer = \<lparr>cards = [Some (cs ! 0), Some (cs ! 1), Some (cs ! 2)]\<rparr>,
                    middleLayer = \<lparr>cards = [Some (cs ! 3), Some (cs ! 4), Some (cs ! 5)]\<rparr>,
                    bottomLayer = \<lparr>cards = [Some (cs ! 6), Some (cs ! 7), Some (cs ! 8)]\<rparr>\<rparr>)"

text \<open>
  \<^verbatim>\<open>findBestArrangement\<close>: on a hand that does not have nine cards the source logs a message
  to the console (not modelled) and returns the empty arrangement.
\<close>

definition findBestArrangement :: "Card list \<Rightarrow> PlayerArrangement" where
  "findBestArrangement cs =
     (if length cs \<noteq> 9 then createEmptyArrangement
      else
        case foldl considerArrangement (None, NegInfinity) (candidates cs) of
          (None, bestScore) \<Rightarrow> createSimpleArrangement cs
        | (Some bestArrangement, bestScore) \<Rightarrow>
            if bestScore = NegInfinity then createSimpleArrangement cs else bestArrangement)"

text \<open>
  \<^verbatim>\<open>chooseCardToDiscard\<close>: the state of its loop is \<^verbatim>\<open>bestCardToRemove\<close> and
  \<^verbatim>\<open>bestScore\<close>. \<open>None\<close> is \<^verbatim>\<open>undefined\<close>, the value of \<^verbatim>\<open>cards[0]\<close> on an empty array.
\<close>

definition removeAt :: "nat \<Rightarrow> Card list \<Rightarrow> Card list" where
  "removeAt i cs = take i cs @ drop (i + 1) cs"

definition considerDiscard :: "Card list \<Rightarrow> Card \<times> Score \<Rightarrow> nat \<Rightarrow> Card \<times> Score" where
  "considerDiscard cs best i =
     (let remaining = removeAt i cs;
          arr = findBestArrangement remaining;
          score = scoreArrangement arr
      in if scoreGreater score (snd best) then (cs ! i, score) else best)"

definition chooseCardToDiscard :: "Card list \<Rightarrow> Card option" where
  "chooseCardToDiscard cs =
     (if length cs \<noteq> 10 then (case cs of [] \<Rightarrow> None | c # rest \<Rightarrow> Some c)
      else Some (fst (foldl (considerDiscard cs) (cs ! 0, NegInfinity) [0 ..< length cs])))"

section \<open>Cards of the deck and notions of the specification\<close>

text \<open>The cards that \<^verbatim>\<open>createDeck\<close> builds: 52 standard cards and 3 wildcards.\<close>

fun suitString :: "Suit \<Rightarrow> string" where
  "suitString hearts = ''hearts''" | "suitString diamonds = ''diamonds''"
| "suitString clubs = ''clubs''" | "suitString spades = ''spades''"
| "suitString wild = ''wild''"

definition standardCard :: "Rank \<Rightarrow> Suit \<Rightarrow> Card" where
  "standardCard r s =
     \<lparr>cardId = rankString r @ ''-'' @ suitString s, suit = s, rank = r, isWild = False\<rparr>"

definition wildCard :: "nat \<Rightarrow> Card" where
  "wildCard i = \<lparr>cardId = ''wild-'' @ natString i, suit = wild, rank = WILD, isWild = True\<rparr>"

definition createDeck :: "Card list" where
  "createDeck =
     concat (map (\<lambda>s. map (\<lambda>r. standardCard r s)
                          [R2, R3, R4, R5, R6, R7, R8, R9, R10, RJ, RQ, RK, RA])
               [hearts, diamonds, clubs, spades])
     @ map wildCard [1, 2, 3]"

text \<open>An arrangement with all nine slots filled, and a player who has confirmed it.\<close>

definition arrange :: "Card list \<Rightarrow> Card list \<Rightarrow> Card list \<Rightarrow> PlayerArrangement" where
  "arrange t m b =
     \<lparr>topLayer = \<lparr>cards = map Some t\<rparr>, middleLayer = \<lparr>cards = map Some m\<rparr>,
      bottomLayer = \<lparr>cards = map Some b\<rparr>\<rparr>"

definition playerWith :: "string \<Rightarrow> PlayerArrangement option \<Rightarrow> Player" where
  "playerWith i a =
     \<lparr>playerIdent = i, name = i, isHuman = False, cash = 100, hand = [],
      arrangement = a, isReady = True, isBankrupt = False\<rparr>"

text \<open>
  The evaluation of a layer as every caller computes it: \<^verbatim>\<open>evaluateHand\<close> of the placed
  cards of the layer.
\<close>

definition evaluateLayer :: "Layer \<Rightarrow> HandEvaluation" where
  "evaluateLayer l = evaluateHand (map Some (nonNull (cards l)))"

text \<open>
  The scoring table of the specification: 5 points for a three of a kind (pure or with
  wildcards), 3 points for the two J-Q-K straights and for three face cards, and for a sum
  hand 3 points if its same-suit flag is set, else 1 point.
\<close>

definition categoryPoints :: "HandEvaluation \<Rightarrow> int" where
  "categoryPoints e =
     (if handType e = THREE_OF_KIND_PURE \<or> handType e = THREE_OF_KIND_WILD then 5
      else if handType e = STRAIGHT_FLUSH_JQK \<or> handType e = STRAIGHT_JQK
              \<or> handType e = THREE_FACE_CARDS then 3
      else if isSameSuit e = Some True then 3 else 1)"

text \<open>
  What a layer awards to the first and to the second player: the points of the winning
  hand's own category to the winner of the layer, nothing on a tie.
\<close>

definition layerAward1 :: "HandEvaluation \<Rightarrow> HandEvaluation \<Rightarrow> int" where
  "layerAward1 e1 e2 = (if compareHands e1 e2 > 0 then categoryPoints e1 else 0)"

definition layerAward2 :: "HandEvaluation \<Rightarrow> HandEvaluation \<Rightarrow> int" where
  "layerAward2 e1 e2 = (if compareHands e1 e2 < 0 then categoryPoints e2 else 0)"

text \<open>A foul: the arrangement is missing or not valid. A special hand counts only without a foul.\<close>

definition fouls :: "Player \<Rightarrow> bool" where
  "fouls p = (case arrangement p of None \<Rightarrow> True | Some a \<Rightarrow> \<not> validateArrangement a)"

definition holdsSpecialHand :: "Player \<Rightarrow> bool" where
  "holdsSpecialHand p = (\<not> fouls p \<and> hasSpecialHand p)"

text \<open>
  All nines as the specification words it: a layer of three placed cards, none of them
  wild, that evaluates to a sum hand of value 9.
\<close>

definition nineLayer :: "Layer \<Rightarrow> bool" where
  "nineLayer l =
     (length (nonNull (cards l)) = 3
      \<and> list_all (\<lambda>c. \<not> isWild c) (nonNull (cards l))
      \<and> handType (evaluateLayer l) = SUM_MODULO
      \<and> handValue (evaluateLayer l) = 9)"



text \<open>
  Both searches of ai.ts keep the first item of the highest score: \<open>keepBest f g\<close> is the
  step of such a loop, with \<open>f\<close> the score of an item and \<open>g\<close> what is kept of it.
\<close>

definition keepBest :: "('x \<Rightarrow> Score) \<Rightarrow> ('x \<Rightarrow> 'b) \<Rightarrow> 'b \<times> Score \<Rightarrow> 'x \<Rightarrow> 'b \<times> Score" where
  "keepBest f g best x = (if scoreGreater (f x) (snd best) then (g x, f x) else best)"

text \<open>
  The heuristic score as the specification words it: the sum over the three layers of
  (7 - category number) * 100 + tie-break value.
\<close>

definition layerSum :: "PlayerArrangement \<Rightarrow> int" where
  "layerSum a =
     ((7 - typeNumber (handType (evaluateLayer (topLayer a)))) * 100
        + handValue (evaluateLayer (topLayer a)))
     + ((7 - typeNumber (handType (evaluateLayer (middleLayer a)))) * 100
        + handValue (evaluateLayer (middleLayer a)))
     + ((7 - typeNumber (handType (evaluateLayer (bottomLayer a)))) * 100
        + handValue (evaluateLayer (bottomLayer a)))"

text \<open>
  A partition of a hand into three ordered layers of three: every slot is filled and the
  nine placed cards are the cards of the hand, each used once.
\<close>

definition partitionOf :: "Card list \<Rightarrow> PlayerArrangement \<Rightarrow> bool" where
  "partitionOf cs a =
     (\<exists>t m b. a = arrange t m b \<and> length t = 3 \<and> length m = 3 \<and> length b = 3
              \<and> mset (t @ m @ b) = mset cs)"

text \<open>The score that \<^verbatim>\<open>chooseCardToDiscard\<close> computes for the card at index \<open>i\<close>.\<close>

definition discardScore :: "Card list \<Rightarrow> nat \<Rightarrow> Score" where
  "discardScore cs i = scoreArrangement (findBestArrangement (removeAt i cs))"

text \<open>How often a rank occurs among the cards that are not wild.\<close>

definition rankCount :: "Card list \<Rightarrow> Rank \<Rightarrow> int" where
  "rankCount cs r = int (length (filter (\<lambda>c. \<not> isWild c \<and> rank c = r) cs))"

text \<open>Arrangements of deck cards used as concrete instances below.\<close>

definition arrangementA :: PlayerArrangement where
  "arrangementA =
     arrange [standardCard R2 spades, standardCard R3 diamonds, standardCard R3 clubs]
             [standardCard RJ spades, standardCard RJ diamonds, standardCard RQ clubs]
             [standardCard RK spades, standardCard RK diamonds, standardCard RK clubs]"

definition arrangementB :: PlayerArrangement where
  "arrangementB =
     arrange [standardCard R5 hearts, standardCard R6 hearts, standardCard R8 hearts]
             [wildCard 1, standardCard R2 diamonds, standardCard R10 diamonds]
             [standardCard RQ hearts, standardCard RQ diamonds, standardCard RQ spades]"

definition fourSevens :: PlayerArrangement where
  "fourSevens =
     arrange [standardCard R7 spades, standardCard R7 diamonds, standardCard RA clubs]
             [standardCard R7 clubs, standardCard R7 hearts, standardCard R5 diamonds]
             [standardCard RJ spades, standardCard RQ diamonds, standardCard RK hearts]"

definition allNines :: PlayerArrangement where
  "allNines =
     arrange [standardCard R2 spades, standardCard R3 diamonds, standardCard R4 clubs]
             [standardCard RA spades, standardCard R8 diamonds, standardCard RK clubs]
             [standardCard R5 spades, standardCard R4 diamonds, standardCard RQ hearts]"

definition wildNines :: PlayerArrangement where
  "wildNines =
     arrange [wildCard 1, standardCard R2 diamonds, standardCard RK diamonds]
             [standardCard RA spades, standardCard R8 diamonds, standardCard RK clubs]
             [standardCard R5 spades, standardCard R4 diamonds, standardCard RQ hearts]"

definition nineHand :: "Card list" where
  "nineHand =
     [standardCard R2 spades, standardCard R3 diamonds, standardCard R4 clubs,
      standardCard RA spades, standardCard R8 diamonds, standardCard RK clubs,
      standardCard R5 spades, standardCard R4 diamonds, standardCard RQ hearts]"

definition tenHand :: "Card list" where
  "tenHand = wildCard 1 # nineHand"

definition sevensHand :: "Card list" where
  "sevensHand =
     [standardCard R7 spades, standardCard R7 diamonds, standardCard RA clubs,
      standardCard R7 clubs, standardCard R7 hearts, standardCard R5 diamonds,
      standardCard RJ spades, standardCard RQ diamonds, standardCard RK hearts]"

section \<open>Basic facts\<close>

lemma nonNull_map_Some [simp]: "nonNull (map Some cs) = cs"
  by (induction cs) auto

lemma no_None_map_Some [simp]: "list_ex (\<lambda>c. c = None) (map Some cs) = False"
  by (induction cs) auto

lemma nonNull_append [simp]: "nonNull (xs @ ys) = nonNull xs @ nonNull ys"
  by (induction xs rule: nonNull.induct) auto

lemma length_nonNull_le: "length (nonNull xs) \<le> length xs"
  by (induction xs rule: nonNull.induct) auto

lemma sameSuit_list:
  "(if length xs \<le> 1 then True else list_all (\<lambda>c. suit c = suit (xs ! 0)) xs)
     = (\<forall>a\<in>set xs. \<forall>b\<in>set xs. suit a = suit b)"
  by (cases xs) (auto simp: list_all_iff)

lemma isSameSuitCards_iff:
  "isSameSuitCards cs
     = (\<forall>a\<in>set cs. \<forall>b\<in>set cs. \<not> isWild a \<longrightarrow> \<not> isWild b \<longrightarrow> suit a = suit b)"
  unfolding isSameSuitCards_def Let_def sameSuit_list by auto

lemma getSumModulo_range: "0 \<le> getSumModulo cs \<and> getSumModulo cs \<le> 9"
  unfolding getSumModulo_def
  by (smt (verit) pos_mod_bound pos_mod_sign)

lemma evaluateHand_sum_le_9:
  "handType (evaluateHand slots) = SUM_MODULO \<Longrightarrow> handValue (evaluateHand slots) \<le> 9"
  using getSumModulo_range[of "nonNull slots"]
  by (auto simp: evaluateHand_def Let_def split: if_splits)

lemma wild_sum_value:
  "length cs = 3 \<Longrightarrow> list_ex isWild cs \<Longrightarrow>
   handType (evaluateHand (map Some cs)) = SUM_MODULO \<Longrightarrow>
   handValue (evaluateHand (map Some cs)) = 9"
  by (simp add: evaluateHand_def Let_def split: if_splits)

lemma getHandPoints_categoryPoints: "getHandPoints e = categoryPoints e"
  by (cases "handType e") (auto simp: categoryPoints_def)

section \<open>Hand evaluation and comparison\<close>

text \<open>
  C7. Two evaluations that are both of category \<open>STRAIGHT_FLUSH_JQK\<close>, or both of category
  \<open>STRAIGHT_JQK\<close>, compare as a tie, whatever their tie-break values are and however the
  hands were built.
\<close>

theorem compareHands_jqk_tie:
  assumes "handType h1 = handType h2"
    and "handType h1 = STRAIGHT_FLUSH_JQK \<or> handType h1 = STRAIGHT_JQK"
  shows "compareHands h1 h2 = 0"
  using assms by (auto simp: compareHands_def)

text \<open>
  The instance: the natural J-Q-K of spades against a wildcard with the queen and king of
  diamonds, both straight flushes, and two straights with different tie-break values.
\<close>

theorem compareHands_jqk_tie_witness:
  "handType (evaluateHand [Some (standardCard RJ spades), Some (standardCard RQ spades),
                           Some (standardCard RK spades)]) = STRAIGHT_FLUSH_JQK
   \<and> handType (evaluateHand [Some (wildCard 1), Some (standardCard RQ diamonds),
                             Some (standardCard RK diamonds)]) = STRAIGHT_FLUSH_JQK
   \<and> compareHands
        (evaluateHand [Some (standardCard RJ spades), Some (standardCard RQ spades),
                       Some (standardCard RK spades)])
        (evaluateHand [Some (wildCard 1), Some (standardCard RQ diamonds),
                       Some (standardCard RK diamonds)]) = 0
   \<and> compareHands
        \<lparr>handType = STRAIGHT_JQK, handValue = 100, description = ''Straight J-Q-K'',
         isSameSuit = None\<rparr>
        \<lparr>handType = STRAIGHT_JQK, handValue = 7, description = ''Straight J-Q-K'',
         isSameSuit = None\<rparr> = 0"
proof -
  let ?n = "evaluateHand [Some (standardCard RJ spades), Some (standardCard RQ spades),
                          Some (standardCard RK spades)]"
  let ?w = "evaluateHand [Some (wildCard 1), Some (standardCard RQ diamonds),
                          Some (standardCard RK diamonds)]"
  have n: "handType ?n = STRAIGHT_FLUSH_JQK" by code_simp
  have w: "handType ?w = STRAIGHT_FLUSH_JQK" by code_simp
  have "compareHands ?n ?w = 0"
    using compareHands_jqk_tie[of ?n ?w] n w by simp
  moreover have "compareHands
        \<lparr>handType = STRAIGHT_JQK, handValue = 100, description = ''Straight J-Q-K'',
         isSameSuit = None\<rparr>
        \<lparr>handType = STRAIGHT_JQK, handValue = 7, description = ''Straight J-Q-K'',
         isSameSuit = None\<rparr> = 0"
    by (rule compareHands_jqk_tie) simp_all
  ultimately show ?thesis using n w by simp
qed

text \<open>
  C10. On an input that does not have exactly three slots, or that has an empty slot,
  \<open>evaluateHand\<close> returns the sentinel evaluation: the weakest category \<open>SUM_MODULO\<close> with
  value 0 and the label "Invalid hand". The function is total: nothing is raised.
\<close>

theorem evaluateHand_malformed:
  assumes "length slots \<noteq> 3 \<or> None \<in> set slots"
  shows "evaluateHand slots
           = \<lparr>handType = SUM_MODULO, handValue = 0, description = ''Invalid hand'',
              isSameSuit = None\<rparr>"
  using assms by (auto simp: evaluateHand_def list_ex_iff)

theorem evaluateHand_malformed_witness:
  "evaluateHand [Some (standardCard R9 clubs), Some (standardCard R9 hearts)]
     = \<lparr>handType = SUM_MODULO, handValue = 0, description = ''Invalid hand'', isSameSuit = None\<rparr>
   \<and> evaluateHand [Some (standardCard R9 clubs), None, Some (standardCard R9 hearts)]
     = \<lparr>handType = SUM_MODULO, handValue = 0, description = ''Invalid hand'', isSameSuit = None\<rparr>
   \<and> evaluateHand []
     = \<lparr>handType = SUM_MODULO, handValue = 0, description = ''Invalid hand'', isSameSuit = None\<rparr>"
  using evaluateHand_malformed[of "[Some (standardCard R9 clubs), Some (standardCard R9 hearts)]"]
    evaluateHand_malformed[of "[Some (standardCard R9 clubs), None, Some (standardCard R9 hearts)]"]
    evaluateHand_malformed[of "[]"]
  by simp

text \<open>
  C3. Three cards that evaluate to the category \<open>SUM_MODULO\<close> and contain a wildcard get the
  tie-break value 9, not the computed sum, and their same-suit flag is set exactly when
  all cards that are not wild share one suit.
\<close>

theorem evaluateHand_wild_sum:
  assumes "length cs = 3"
    and "handType (evaluateHand (map Some cs)) = SUM_MODULO"
    and "\<exists>c\<in>set cs. isWild c"
  shows "handValue (evaluateHand (map Some cs)) = 9
         \<and> isSameSuit (evaluateHand (map Some cs))
             = Some (\<forall>a\<in>set cs. \<forall>b\<in>set cs. \<not> isWild a \<longrightarrow> \<not> isWild b \<longrightarrow> suit a = suit b)"
  using assms
  by (simp add: evaluateHand_def Let_def list_ex_iff isSameSuitCards_iff split: if_splits)

text \<open>
  The instances: a wildcard with the 2 and the king of diamonds (computed sum 2, same
  suit), and a wildcard with the 2 of diamonds and the king of clubs (two suits).
\<close>

theorem evaluateHand_wild_sum_witness:
  "getSumModulo [wildCard 1, standardCard R2 diamonds, standardCard RK diamonds] = 2
   \<and> handValue (evaluateHand (map Some [wildCard 1, standardCard R2 diamonds,
                                         standardCard RK diamonds])) = 9
   \<and> isSameSuit (evaluateHand (map Some [wildCard 1, standardCard R2 diamonds,
                                          standardCard RK diamonds])) = Some True
   \<and> handValue (evaluateHand (map Some [wildCard 1, standardCard R2 diamonds,
                                         standardCard RK clubs])) = 9
   \<and> isSameSuit (evaluateHand (map Some [wildCard 1, standardCard R2 diamonds,
                                          standardCard RK clubs])) = Some False"
proof -
  let ?s = "[wildCard 1, standardCard R2 diamonds, standardCard RK diamonds]"
  let ?d = "[wildCard 1, standardCard R2 diamonds, standardCard RK clubs]"
  have sum: "getSumModulo ?s = 2" by code_simp
  have ts: "handType (evaluateHand (map Some ?s)) = SUM_MODULO" by code_simp
  have td: "handType (evaluateHand (map Some ?d)) = SUM_MODULO" by code_simp
  have ws: "\<exists>c\<in>set ?s. isWild c" by (simp add: wildCard_def)
  have wd: "\<exists>c\<in>set ?d. isWild c" by (simp add: wildCard_def)
  have fs: "(\<forall>a\<in>set ?s. \<forall>b\<in>set ?s. \<not> isWild a \<longrightarrow> \<not> isWild b \<longrightarrow> suit a = suit b) = True"
    by (simp add: wildCard_def standardCard_def)
  have fd: "(\<forall>a\<in>set ?d. \<forall>b\<in>set ?d. \<not> isWild a \<longrightarrow> \<not> isWild b \<longrightarrow> suit a = suit b) = False"
    by (simp add: wildCard_def standardCard_def)
  have ls: "length ?s = 3" and ld: "length ?d = 3" by simp_all
  have s: "handValue (evaluateHand (map Some ?s)) = 9
           \<and> isSameSuit (evaluateHand (map Some ?s)) = Some True"
    using evaluateHand_wild_sum[OF ls ts ws] unfolding fs .
  have d: "handValue (evaluateHand (map Some ?d)) = 9
           \<and> isSameSuit (evaluateHand (map Some ?d)) = Some False"
    using evaluateHand_wild_sum[OF ld td wd] unfolding fd .
  from sum s d show ?thesis by blast
qed

section \<open>Arrangements and matchups\<close>

lemma layerAllNines_iff: "layerAllNines l = nineLayer l"
  using evaluateHand_sum_le_9[of "map Some (nonNull (cards l))"]
  by (auto simp: layerAllNines_def nineLayer_def evaluateLayer_def Let_def list_ex_iff list_all_iff)

lemma compareArrangements_unfold:
  "compareArrangements p1 p2 =
     (let result = \<lparr>player1Id = playerIdent p1, player2Id = playerIdent p2,
             layerComparisons = [], player1TotalPoints = 0, player2TotalPoints = 0,
             player1Foul = fouls p1, player2Foul = fouls p2\<rparr>
      in if holdsSpecialHand p1 \<and> holdsSpecialHand p2 then result
         else if holdsSpecialHand p1 then result\<lparr>player1TotalPoints := 10\<rparr>
         else if holdsSpecialHand p2 then result\<lparr>player2TotalPoints := 10\<rparr>
         else if fouls p1 \<and> fouls p2 then result
         else if fouls p1 then result\<lparr>player2TotalPoints := 10\<rparr>
         else if fouls p2 then result\<lparr>player1TotalPoints := 10\<rparr>
         else foldl (compareLayer p1 p2) result [LTop, LMiddle, LBottom])"
  by (simp add: compareArrangements_def fouls_def holdsSpecialHand_def Let_def)

lemma compareLayer_points:
  assumes "arrangement p1 = Some a1" and "arrangement p2 = Some a2"
  shows "player1TotalPoints (compareLayer p1 p2 r l)
           = player1TotalPoints r
             + layerAward1 (evaluateLayer (getLayer l a1)) (evaluateLayer (getLayer l a2))"
    and "player2TotalPoints (compareLayer p1 p2 r l)
           = player2TotalPoints r
             + layerAward2 (evaluateLayer (getLayer l a1)) (evaluateLayer (getLayer l a2))"
  using assms
  by (auto simp: compareLayer_def Let_def layerAward1_def layerAward2_def evaluateLayer_def
         getHandPoints_categoryPoints simp del: getHandPoints.simps)

text \<open>
  C8. \<open>validateArrangement\<close> is false whenever a layer has fewer than three placed cards.
  Otherwise (a layer is an array of three slots, so all three are then filled) it is false
  exactly when the top layer strictly beats the middle layer or the middle layer
  strictly beats the bottom layer under \<open>compareHands\<close>; in particular it is true when
  the layers tie at both boundaries.
\<close>

theorem validateArrangement_spec:
  "(length (nonNull (cards (topLayer a))) < 3 \<or> length (nonNull (cards (middleLayer a))) < 3
      \<or> length (nonNull (cards (bottomLayer a))) < 3 \<longrightarrow> \<not> validateArrangement a)
   \<and> (length (cards (topLayer a)) = 3 \<and> length (cards (middleLayer a)) = 3
        \<and> length (cards (bottomLayer a)) = 3
        \<and> \<not> (length (nonNull (cards (topLayer a))) < 3
               \<or> length (nonNull (cards (middleLayer a))) < 3
               \<or> length (nonNull (cards (bottomLayer a))) < 3) \<longrightarrow>
        validateArrangement a
          = (\<not> (compareHands (evaluateLayer (topLayer a)) (evaluateLayer (middleLayer a)) > 0
                \<or> compareHands (evaluateLayer (middleLayer a)) (evaluateLayer (bottomLayer a)) > 0)))
   \<and> (length (cards (topLayer a)) = 3 \<and> length (cards (middleLayer a)) = 3
        \<and> length (cards (bottomLayer a)) = 3
        \<and> \<not> (length (nonNull (cards (topLayer a))) < 3
               \<or> length (nonNull (cards (middleLayer a))) < 3
               \<or> length (nonNull (cards (bottomLayer a))) < 3)
        \<and> compareHands (evaluateLayer (topLayer a)) (evaluateLayer (middleLayer a)) = 0
        \<and> compareHands (evaluateLayer (middleLayer a)) (evaluateLayer (bottomLayer a)) = 0
        \<longrightarrow> validateArrangement a)"
  using length_nonNull_le[of "cards (topLayer a)"] length_nonNull_le[of "cards (middleLayer a)"]
    length_nonNull_le[of "cards (bottomLayer a)"]
  by (auto simp: validateArrangement_def evaluateLayer_def Let_def)

text \<open>
  The instances: three layers that all evaluate to a sum of 9 tie at both boundaries and
  are accepted; the empty arrangement has no placed card and is rejected.
\<close>

theorem validateArrangement_spec_witness:
  "compareHands (evaluateLayer (topLayer allNines)) (evaluateLayer (middleLayer allNines)) = 0
   \<and> compareHands (evaluateLayer (middleLayer allNines)) (evaluateLayer (bottomLayer allNines)) = 0
   \<and> validateArrangement allNines
   \<and> \<not> validateArrangement createEmptyArrangement"
proof -
  have n: "length (cards (topLayer allNines)) = 3 \<and> length (cards (middleLayer allNines)) = 3
        \<and> length (cards (bottomLayer allNines)) = 3"
    by (simp add: allNines_def arrange_def)
  have p: "\<not> (length (nonNull (cards (topLayer allNines))) < 3
              \<or> length (nonNull (cards (middleLayer allNines))) < 3
              \<or> length (nonNull (cards (bottomLayer allNines))) < 3)"
    by (simp add: allNines_def arrange_def)
  have t: "compareHands (evaluateLayer (topLayer allNines)) (evaluateLayer (middleLayer allNines)) = 0"
    by code_simp
  have m: "compareHands (evaluateLayer (middleLayer allNines)) (evaluateLayer (bottomLayer allNines)) = 0"
    by code_simp
  have f: "length (nonNull (cards (topLayer createEmptyArrangement))) < 3"
    by (simp add: createEmptyArrangement_def)
  have "validateArrangement allNines"
    using validateArrangement_spec[of allNines] n p t m by blast
  moreover have "\<not> validateArrangement createEmptyArrangement"
    using validateArrangement_spec[of createEmptyArrangement] f by blast
  ultimately show ?thesis using t m by blast
qed

text \<open>
  C1. When neither player fouls and neither has a special hand, the points of each player
  in \<open>compareArrangements\<close> are the sum over the three layers of what the layer awards:
  the winner of a layer gets the points of the winning hand's own category (5 for a three
  of a kind, pure or wild; 3 for the two J-Q-K straights and three face cards; for a sum
  hand 3 with the same-suit flag, else 1), and a tied layer gives nothing to either side.
\<close>

theorem compareArrangements_layer_points:
  assumes "arrangement p1 = Some a1" and "arrangement p2 = Some a2"
    and "\<not> fouls p1" and "\<not> fouls p2"
    and "\<not> hasSpecialHand p1" and "\<not> hasSpecialHand p2"
  shows "player1TotalPoints (compareArrangements p1 p2)
           = layerAward1 (evaluateLayer (topLayer a1)) (evaluateLayer (topLayer a2))
             + layerAward1 (evaluateLayer (middleLayer a1)) (evaluateLayer (middleLayer a2))
             + layerAward1 (evaluateLayer (bottomLayer a1)) (evaluateLayer (bottomLayer a2))
       \<and> player2TotalPoints (compareArrangements p1 p2)
           = layerAward2 (evaluateLayer (topLayer a1)) (evaluateLayer (topLayer a2))
             + layerAward2 (evaluateLayer (middleLayer a1)) (evaluateLayer (middleLayer a2))
             + layerAward2 (evaluateLayer (bottomLayer a1)) (evaluateLayer (bottomLayer a2))
       \<and> (\<forall>e. getHandPoints e = categoryPoints e)"
  using assms(3-6)
  by (simp add: compareArrangements_unfold holdsSpecialHand_def
        compareLayer_points[OF assms(1,2)] getLayer_def getHandPoints_categoryPoints
      del: getHandPoints.simps)

text \<open>
  The instance: A wins the middle layer with three face cards (3 points) and the bottom
  layer with three kings (5 points); B wins the top layer with a same-suit sum of 9
  (3 points).
\<close>

theorem compareArrangements_layer_points_witness:
  "player1TotalPoints (compareArrangements (playerWith ''A'' (Some arrangementA))
                                           (playerWith ''B'' (Some arrangementB))) = 8
   \<and> player2TotalPoints (compareArrangements (playerWith ''A'' (Some arrangementA))
                                             (playerWith ''B'' (Some arrangementB))) = 3"
proof -
  let ?A = "playerWith ''A'' (Some arrangementA)"
  let ?B = "playerWith ''B'' (Some arrangementB)"
  have a: "arrangement ?A = Some arrangementA" "arrangement ?B = Some arrangementB"
    by (simp_all add: playerWith_def)
  have f: "\<not> fouls ?A" "\<not> fouls ?B" by code_simp+
  have s: "\<not> hasSpecialHand ?A" "\<not> hasSpecialHand ?B" by code_simp+
  have v1: "layerAward1 (evaluateLayer (topLayer arrangementA)) (evaluateLayer (topLayer arrangementB))
             + layerAward1 (evaluateLayer (middleLayer arrangementA)) (evaluateLayer (middleLayer arrangementB))
             + layerAward1 (evaluateLayer (bottomLayer arrangementA)) (evaluateLayer (bottomLayer arrangementB))
            = 8"
    by code_simp
  have v2: "layerAward2 (evaluateLayer (topLayer arrangementA)) (evaluateLayer (topLayer arrangementB))
             + layerAward2 (evaluateLayer (middleLayer arrangementA)) (evaluateLayer (middleLayer arrangementB))
             + layerAward2 (evaluateLayer (bottomLayer arrangementA)) (evaluateLayer (bottomLayer arrangementB))
            = 3"
    by code_simp
  show ?thesis
    using compareArrangements_layer_points[OF a f s] unfolding v1 v2 by blast
qed

text \<open>
  C2. A player holds a special hand when they do not foul and have all nines or four of a
  kind (either one suffices). If exactly one player of a matchup holds a special hand,
  that player gets 10 points and the other 0, whether or not the other fouls; if both
  hold one, both get 0 points and no layer is compared.
\<close>

theorem special_hand_matchup:
  "(holdsSpecialHand p = (\<not> fouls p \<and> (checkAllNines p \<or> checkFourOfAKind p)))
   \<and> (holdsSpecialHand p1 \<and> \<not> holdsSpecialHand p2 \<longrightarrow>
        player1TotalPoints (compareArrangements p1 p2) = 10
        \<and> player2TotalPoints (compareArrangements p1 p2) = 0)
   \<and> (\<not> holdsSpecialHand p1 \<and> holdsSpecialHand p2 \<longrightarrow>
        player1TotalPoints (compareArrangements p1 p2) = 0
        \<and> player2TotalPoints (compareArrangements p1 p2) = 10)
   \<and> (holdsSpecialHand p1 \<and> holdsSpecialHand p2 \<longrightarrow>
        player1TotalPoints (compareArrangements p1 p2) = 0
        \<and> player2TotalPoints (compareArrangements p1 p2) = 0
        \<and> layerComparisons (compareArrangements p1 p2) = [])"
  by (simp add: compareArrangements_unfold Let_def) (simp add: holdsSpecialHand_def hasSpecialHand_def)

text \<open>
  The instances: four sevens (and no all nines) against a player without an arrangement,
  who fouls; and all nines (without four of a kind) against the four sevens, a draw.
\<close>

theorem special_hand_matchup_witness:
  "checkFourOfAKind (playerWith ''F'' (Some fourSevens))
   \<and> \<not> checkAllNines (playerWith ''F'' (Some fourSevens))
   \<and> fouls (playerWith ''N'' None)
   \<and> player1TotalPoints (compareArrangements (playerWith ''F'' (Some fourSevens))
                                             (playerWith ''N'' None)) = 10
   \<and> player2TotalPoints (compareArrangements (playerWith ''F'' (Some fourSevens))
                                             (playerWith ''N'' None)) = 0
   \<and> checkAllNines (playerWith ''G'' (Some allNines))
   \<and> \<not> checkFourOfAKind (playerWith ''G'' (Some allNines))
   \<and> player1TotalPoints (compareArrangements (playerWith ''G'' (Some allNines))
                                             (playerWith ''F'' (Some fourSevens))) = 0
   \<and> player2TotalPoints (compareArrangements (playerWith ''G'' (Some allNines))
                                             (playerWith ''F'' (Some fourSevens))) = 0"
proof -
  let ?F = "playerWith ''F'' (Some fourSevens)"
  let ?G = "playerWith ''G'' (Some allNines)"
  let ?N = "playerWith ''N'' None"
  have c: "checkFourOfAKind ?F" "\<not> checkAllNines ?F" "checkAllNines ?G" "\<not> checkFourOfAKind ?G"
    by code_simp+
  have f: "\<not> fouls ?F" "\<not> fouls ?G" "fouls ?N" by code_simp+
  have hF: "holdsSpecialHand ?F"
    using special_hand_matchup[of ?F ?F ?F] c f by blast
  have hG: "holdsSpecialHand ?G"
    using special_hand_matchup[of ?G ?G ?G] c f by blast
  have hN: "\<not> holdsSpecialHand ?N"
    using special_hand_matchup[of ?N ?N ?N] f by blast
  have "player1TotalPoints (compareArrangements ?F ?N) = 10
        \<and> player2TotalPoints (compareArrangements ?F ?N) = 0"
    using special_hand_matchup[of ?F ?F ?N] hF hN by blast
  moreover have "player1TotalPoints (compareArrangements ?G ?F) = 0
        \<and> player2TotalPoints (compareArrangements ?G ?F) = 0"
    using special_hand_matchup[of ?F ?G ?F] hF hG by blast
  ultimately show ?thesis using c f by blast
qed

text \<open>
  C6. \<open>checkAllNines\<close> holds exactly when the player has an arrangement in which every
  layer has three placed cards, none of them wild, and evaluates to a sum hand of value
  9. A wildcard anywhere among the placed cards rules it out, although a layer with a
  wildcard that evaluates to a sum hand has the value 9.
\<close>

theorem checkAllNines_spec:
  "(checkAllNines p
      = (\<exists>a. arrangement p = Some a \<and> nineLayer (topLayer a) \<and> nineLayer (middleLayer a)
              \<and> nineLayer (bottomLayer a)))
   \<and> (\<forall>a. arrangement p = Some a \<and> list_ex isWild (getCardsFromArrangement a)
          \<longrightarrow> \<not> checkAllNines p)
   \<and> (\<forall>l. length (nonNull (cards l)) = 3 \<and> list_ex isWild (nonNull (cards l))
            \<and> handType (evaluateLayer l) = SUM_MODULO
          \<longrightarrow> handValue (evaluateLayer l) = 9 \<and> \<not> nineLayer l)"
proof -
  have "checkAllNines p
      = (\<exists>a. arrangement p = Some a \<and> nineLayer (topLayer a) \<and> nineLayer (middleLayer a)
              \<and> nineLayer (bottomLayer a))"
    by (auto simp: checkAllNines_def layerAllNines_iff split: option.splits)
  moreover have "\<forall>a. arrangement p = Some a \<and> list_ex isWild (getCardsFromArrangement a)
          \<longrightarrow> \<not> checkAllNines p"
    by (auto simp: checkAllNines_def layerAllNines_iff nineLayer_def getCardsFromArrangement_def
          list_ex_iff list_all_iff split: option.splits)
  moreover have "handValue (evaluateLayer l) = 9 \<and> \<not> nineLayer l"
    if "length (nonNull (cards l)) = 3 \<and> list_ex isWild (nonNull (cards l))
            \<and> handType (evaluateLayer l) = SUM_MODULO" for l
    using that wild_sum_value[of "nonNull (cards l)"]
    by (auto simp: evaluateLayer_def nineLayer_def list_ex_iff list_all_iff)
  ultimately show ?thesis by blast
qed

text \<open>
  The instances: an arrangement of nine plain cards whose layers all sum to 9, and the
  same with a wildcard in the top layer, where every layer still evaluates to a sum hand
  of value 9.
\<close>

theorem checkAllNines_spec_witness:
  "checkAllNines (playerWith ''G'' (Some allNines))
   \<and> handType (evaluateLayer (topLayer wildNines)) = SUM_MODULO
   \<and> handValue (evaluateLayer (topLayer wildNines)) = 9
   \<and> handValue (evaluateLayer (middleLayer wildNines)) = 9
   \<and> handValue (evaluateLayer (bottomLayer wildNines)) = 9
   \<and> \<not> checkAllNines (playerWith ''W'' (Some wildNines))"
proof -
  let ?G = "playerWith ''G'' (Some allNines)"
  let ?W = "playerWith ''W'' (Some wildNines)"
  have a: "arrangement ?G = Some allNines" "arrangement ?W = Some wildNines"
    by (simp_all add: playerWith_def)
  have n: "nineLayer (topLayer allNines)" "nineLayer (middleLayer allNines)"
    "nineLayer (bottomLayer allNines)"
    by code_simp+
  have w: "list_ex isWild (getCardsFromArrangement wildNines)" by code_simp
  have v: "handType (evaluateLayer (topLayer wildNines)) = SUM_MODULO"
    "handValue (evaluateLayer (topLayer wildNines)) = 9"
    "handValue (evaluateLayer (middleLayer wildNines)) = 9"
    "handValue (evaluateLayer (bottomLayer wildNines)) = 9"
    by code_simp+
  have "checkAllNines ?G"
    using checkAllNines_spec[of ?G] a n by blast
  moreover have "\<not> checkAllNines ?W"
    using checkAllNines_spec[of ?W] a w by blast
  ultimately show ?thesis using v by blast
qed

section \<open>Round scores\<close>

























section \<open>The search for the best arrangement\<close>

lemma scoreGreater_irrefl: "\<not> scoreGreater x x"
  by (cases x) auto

lemma scoreGreater_asym: "scoreGreater x y \<Longrightarrow> \<not> scoreGreater y x"
  by (cases x; cases y) auto

lemma scoreGreater_trans: "scoreGreater x y \<Longrightarrow> scoreGreater y z \<Longrightarrow> scoreGreater x z"
  by (cases x; cases y; cases z) auto

lemma scoreGreater_le_trans: "scoreGreater x y \<Longrightarrow> \<not> scoreGreater z y \<Longrightarrow> scoreGreater x z"
  by (cases x; cases y; cases z) auto

lemma scoreGreater_NegInfinity: "scoreGreater x NegInfinity = (x \<noteq> NegInfinity)"
  by (cases x) auto

text \<open>
  A loop of \<open>keepBest\<close> steps either keeps its initial state, when no item scores above
  the initial score, or ends with the first item of the highest score.
\<close>

lemma foldl_keepBest:
  "(foldl (keepBest f g) (b0, s0) xs = (b0, s0) \<and> (\<forall>j<length xs. \<not> scoreGreater (f (xs ! j)) s0))
   \<or> (\<exists>k<length xs. foldl (keepBest f g) (b0, s0) xs = (g (xs ! k), f (xs ! k))
         \<and> scoreGreater (f (xs ! k)) s0
         \<and> (\<forall>j<length xs. \<not> scoreGreater (f (xs ! j)) (f (xs ! k)))
         \<and> (\<forall>j<k. scoreGreater (f (xs ! k)) (f (xs ! j))))"
proof (induction xs arbitrary: b0 s0)
  case Nil
  then show ?case by simp
next
  case (Cons x xs)
  show ?case
  proof (cases "scoreGreater (f x) s0")
    case True
    then have step: "foldl (keepBest f g) (b0, s0) (x # xs) = foldl (keepBest f g) (g x, f x) xs"
      by (simp add: keepBest_def)
    from Cons.IH[of "g x" "f x"] show ?thesis
    proof (elim disjE conjE exE)
      assume a: "foldl (keepBest f g) (g x, f x) xs = (g x, f x)"
        and b: "\<forall>j<length xs. \<not> scoreGreater (f (xs ! j)) (f x)"
      have "\<forall>j<length (x # xs). \<not> scoreGreater (f ((x # xs) ! j)) (f x)"
        using b scoreGreater_irrefl by (auto simp: nth_Cons split: nat.splits)
      then show ?thesis
        using step a True by (intro disjI2 exI[of _ 0]) simp
    next
      fix k
      assume k: "k < length xs"
        and a: "foldl (keepBest f g) (g x, f x) xs = (g (xs ! k), f (xs ! k))"
        and gt: "scoreGreater (f (xs ! k)) (f x)"
        and mx: "\<forall>j<length xs. \<not> scoreGreater (f (xs ! j)) (f (xs ! k))"
        and fst: "\<forall>j<k. scoreGreater (f (xs ! k)) (f (xs ! j))"
      have 1: "scoreGreater (f (xs ! k)) s0" using gt True by (rule scoreGreater_trans)
      have 2: "\<forall>j<length (x # xs). \<not> scoreGreater (f ((x # xs) ! j)) (f (xs ! k))"
        using mx scoreGreater_asym[OF gt] by (auto simp: nth_Cons split: nat.splits)
      have 3: "\<forall>j<Suc k. scoreGreater (f (xs ! k)) (f ((x # xs) ! j))"
        using fst gt by (auto simp: nth_Cons split: nat.splits)
      show ?thesis
        using step a k 1 2 3 by (intro disjI2 exI[of _ "Suc k"]) simp
    qed
  next
    case False
    then have step: "foldl (keepBest f g) (b0, s0) (x # xs) = foldl (keepBest f g) (b0, s0) xs"
      by (simp add: keepBest_def)
    from Cons.IH[of b0 s0] show ?thesis
    proof (elim disjE conjE exE)
      assume a: "foldl (keepBest f g) (b0, s0) xs = (b0, s0)"
        and b: "\<forall>j<length xs. \<not> scoreGreater (f (xs ! j)) s0"
      have "\<forall>j<length (x # xs). \<not> scoreGreater (f ((x # xs) ! j)) s0"
        using b False by (auto simp: nth_Cons split: nat.splits)
      then show ?thesis using step a by simp
    next
      fix k
      assume k: "k < length xs"
        and a: "foldl (keepBest f g) (b0, s0) xs = (g (xs ! k), f (xs ! k))"
        and gt: "scoreGreater (f (xs ! k)) s0"
        and mx: "\<forall>j<length xs. \<not> scoreGreater (f (xs ! j)) (f (xs ! k))"
        and fst: "\<forall>j<k. scoreGreater (f (xs ! k)) (f (xs ! j))"
      have gx: "scoreGreater (f (xs ! k)) (f x)"
        using gt False by (rule scoreGreater_le_trans)
      have 2: "\<forall>j<length (x # xs). \<not> scoreGreater (f ((x # xs) ! j)) (f (xs ! k))"
        using mx scoreGreater_asym[OF gx] by (auto simp: nth_Cons split: nat.splits)
      have 3: "\<forall>j<Suc k. scoreGreater (f (xs ! k)) (f ((x # xs) ! j))"
        using fst gx by (auto simp: nth_Cons split: nat.splits)
      show ?thesis
        using step a k gt 2 3 by (intro disjI2 exI[of _ "Suc k"]) simp
    qed
  qed
qed

lemma considerArrangement_keepBest: "considerArrangement = keepBest scoreArrangement Some"
  by (intro ext) (simp add: considerArrangement_def keepBest_def Let_def)

lemma considerDiscard_keepBest:
  "considerDiscard cs = keepBest (discardScore cs) (\<lambda>i. cs ! i)"
  by (intro ext) (simp add: considerDiscard_def keepBest_def discardScore_def Let_def)

lemma validateArrangement_iff:
  "validateArrangement a
     = (length (nonNull (cards (topLayer a))) = 3 \<and> length (nonNull (cards (middleLayer a))) = 3
        \<and> length (nonNull (cards (bottomLayer a))) = 3
        \<and> compareHands (evaluateLayer (topLayer a)) (evaluateLayer (middleLayer a)) \<le> 0
        \<and> compareHands (evaluateLayer (middleLayer a)) (evaluateLayer (bottomLayer a)) \<le> 0)"
  unfolding validateArrangement_def evaluateLayer_def Let_def by auto

lemma scoreArrangement_valid:
  "(scoreArrangement a \<noteq> NegInfinity) = validateArrangement a"
  unfolding scoreArrangement_def Let_def
  by (cases "validateArrangement a") (auto simp: validateArrangement_iff)

lemma scoreArrangement_formula:
  "validateArrangement a \<Longrightarrow>
   scoreArrangement a = (if hasSpecialHandArrangement a then Num 10000 else Num (layerSum a))"
  unfolding scoreArrangement_def Let_def
  by (simp add: validateArrangement_iff layerSum_def handScore_def evaluateLayer_def Let_def)

lemma compareHands_antisym: "compareHands e2 e1 = - compareHands e1 e2"
  by (cases "handType e1"; cases "handType e2") (auto simp: compareHands_def)

lemma validateArrangement_arrange:
  "length t = 3 \<Longrightarrow> length m = 3 \<Longrightarrow> length b = 3 \<Longrightarrow>
   validateArrangement (arrange t m b)
     = (compareHands (evaluateHand (map Some t)) (evaluateHand (map Some m)) \<le> 0
        \<and> compareHands (evaluateHand (map Some m)) (evaluateHand (map Some b)) \<le> 0)"
  by (simp add: validateArrangement_iff arrange_def evaluateLayer_def)

text \<open>Three hands can always be stacked in some order: every pair of hands compares.\<close>

lemma some_order_valid:
  assumes "length g0 = 3" and "length g1 = 3" and "length g2 = 3"
  shows "validateArrangement (arrange g0 g1 g2) \<or> validateArrangement (arrange g0 g2 g1)
       \<or> validateArrangement (arrange g1 g0 g2) \<or> validateArrangement (arrange g1 g2 g0)
       \<or> validateArrangement (arrange g2 g0 g1) \<or> validateArrangement (arrange g2 g1 g0)"
proof -
  define x where "x = evaluateHand (map Some g0)"
  define y where "y = evaluateHand (map Some g1)"
  define z where "z = evaluateHand (map Some g2)"
  have a: "compareHands y x = - compareHands x y" "compareHands z x = - compareHands x z"
    "compareHands z y = - compareHands y z"
    by (rule compareHands_antisym)+
  show ?thesis
    unfolding validateArrangement_arrange[OF assms(1) assms(2) assms(3)]
      validateArrangement_arrange[OF assms(1) assms(3) assms(2)]
      validateArrangement_arrange[OF assms(2) assms(1) assms(3)]
      validateArrangement_arrange[OF assms(2) assms(3) assms(1)]
      validateArrangement_arrange[OF assms(3) assms(1) assms(2)]
      validateArrangement_arrange[OF assms(3) assms(2) assms(1)]
      x_def[symmetric] y_def[symmetric] z_def[symmetric] a
    by linarith
qed

lemma candidates_member:
  "b \<in> set bottomChoices \<Longrightarrow> m \<in> set middleChoices \<Longrightarrow> candidate cs b m \<in> set (candidates cs)"
  by (auto simp: candidates_def)

lemma bottomChoices_blocks:
  "[0, 1, 2] \<in> set bottomChoices" "[3, 4, 5] \<in> set bottomChoices" "[6, 7, 8] \<in> set bottomChoices"
  by code_simp+

lemma middleChoices_blocks:
  "(0, 1, 2) \<in> set middleChoices" "(3, 4, 5) \<in> set middleChoices"
  by code_simp+

lemma block_candidates:
  "arrange [cs ! 6, cs ! 7, cs ! 8] [cs ! 3, cs ! 4, cs ! 5] [cs ! 0, cs ! 1, cs ! 2]
     = candidate cs [0, 1, 2] (0, 1, 2)"
  "arrange [cs ! 3, cs ! 4, cs ! 5] [cs ! 6, cs ! 7, cs ! 8] [cs ! 0, cs ! 1, cs ! 2]
     = candidate cs [0, 1, 2] (3, 4, 5)"
  "arrange [cs ! 6, cs ! 7, cs ! 8] [cs ! 0, cs ! 1, cs ! 2] [cs ! 3, cs ! 4, cs ! 5]
     = candidate cs [3, 4, 5] (0, 1, 2)"
  "arrange [cs ! 0, cs ! 1, cs ! 2] [cs ! 6, cs ! 7, cs ! 8] [cs ! 3, cs ! 4, cs ! 5]
     = candidate cs [3, 4, 5] (3, 4, 5)"
  "arrange [cs ! 3, cs ! 4, cs ! 5] [cs ! 0, cs ! 1, cs ! 2] [cs ! 6, cs ! 7, cs ! 8]
     = candidate cs [6, 7, 8] (0, 1, 2)"
  "arrange [cs ! 0, cs ! 1, cs ! 2] [cs ! 3, cs ! 4, cs ! 5] [cs ! 6, cs ! 7, cs ! 8]
     = candidate cs [6, 7, 8] (3, 4, 5)"
  by (simp_all add: candidate_def indices_def arrange_def)

lemma valid_candidate_exists: "\<exists>a\<in>set (candidates cs). validateArrangement a"
proof -
  let ?g0 = "[cs ! 0, cs ! 1, cs ! 2]" and ?g1 = "[cs ! 3, cs ! 4, cs ! 5]"
    and ?g2 = "[cs ! 6, cs ! 7, cs ! 8]"
  have m: "arrange ?g2 ?g1 ?g0 \<in> set (candidates cs)" "arrange ?g1 ?g2 ?g0 \<in> set (candidates cs)"
    "arrange ?g2 ?g0 ?g1 \<in> set (candidates cs)" "arrange ?g0 ?g2 ?g1 \<in> set (candidates cs)"
    "arrange ?g1 ?g0 ?g2 \<in> set (candidates cs)" "arrange ?g0 ?g1 ?g2 \<in> set (candidates cs)"
    unfolding block_candidates
    by (intro candidates_member bottomChoices_blocks middleChoices_blocks)+
  have "length ?g0 = 3" "length ?g1 = 3" "length ?g2 = 3" by simp_all
  from some_order_valid[OF this] m show ?thesis by blast
qed

text \<open>
  The search returns the first candidate of the highest score, and that candidate is
  valid. (No hand of nine cards reaches the fallback to \<^verbatim>\<open>createSimpleArrangement\<close>.)
\<close>

lemma findBestArrangement_first_best:
  assumes "length cs = 9"
  shows "\<exists>k<length (candidates cs).
           findBestArrangement cs = candidates cs ! k
           \<and> validateArrangement (candidates cs ! k)
           \<and> (\<forall>j<length (candidates cs).
                 \<not> scoreGreater (scoreArrangement (candidates cs ! j))
                      (scoreArrangement (candidates cs ! k)))
           \<and> (\<forall>j<k. scoreGreater (scoreArrangement (candidates cs ! k))
                      (scoreArrangement (candidates cs ! j)))"
proof -
  let ?xs = "candidates cs"
  let ?st = "foldl (keepBest scoreArrangement Some) (None, NegInfinity) ?xs"
  obtain a where a: "a \<in> set ?xs" "validateArrangement a"
    using valid_candidate_exists by blast
  then obtain i where i: "i < length ?xs" "?xs ! i = a" by (auto simp: in_set_conv_nth)
  have "scoreGreater (scoreArrangement (?xs ! i)) NegInfinity"
    using a(2) i(2) by (simp add: scoreGreater_NegInfinity scoreArrangement_valid)
  with i(1) have "\<not> (\<forall>j<length ?xs. \<not> scoreGreater (scoreArrangement (?xs ! j)) NegInfinity)"
    by blast
  with foldl_keepBest[of scoreArrangement Some None NegInfinity ?xs]
  obtain k where k: "k < length ?xs"
    and st: "?st = (Some (?xs ! k), scoreArrangement (?xs ! k))"
    and gt: "scoreGreater (scoreArrangement (?xs ! k)) NegInfinity"
    and mx: "\<forall>j<length ?xs. \<not> scoreGreater (scoreArrangement (?xs ! j)) (scoreArrangement (?xs ! k))"
    and fst: "\<forall>j<k. scoreGreater (scoreArrangement (?xs ! k)) (scoreArrangement (?xs ! j))"
    by blast
  have ne: "scoreArrangement (?xs ! k) \<noteq> NegInfinity"
    using gt by (simp add: scoreGreater_NegInfinity)
  have "findBestArrangement cs = ?xs ! k"
    using assms ne by (simp add: findBestArrangement_def considerArrangement_keepBest st)
  moreover have "validateArrangement (?xs ! k)"
    using ne by (simp add: scoreArrangement_valid)
  ultimately show ?thesis using k mx fst by blast
qed


text \<open>The evaluation of three cards does not depend on their order.\<close>

lemma mset1: "mset [a] = mset ys \<Longrightarrow> ys = [a]"
  by (metis mset_single_iff_right)

lemma mset2: "mset [a, b] = mset ys \<Longrightarrow> ys = [a, b] \<or> ys = [b, a]"
proof -
  assume h: "mset [a, b] = mset ys"
  then have "length ys = 2" using mset_eq_length[OF h] by simp
  then obtain x y where ys: "ys = [x, y]"
    by (auto simp: numeral_2_eq_2 length_Suc_conv)
  from h show ?thesis unfolding ys
    by (auto simp: add_eq_conv_ex split: if_splits)
qed

lemma mset3: "mset [a, b, c] = mset ys \<Longrightarrow>
   ys = [a, b, c] \<or> ys = [a, c, b] \<or> ys = [b, a, c] \<or> ys = [b, c, a] \<or> ys = [c, a, b] \<or> ys = [c, b, a]"
proof -
  assume h: "mset [a, b, c] = mset ys"
  then have "length ys = 3" using mset_eq_length[OF h] by simp
  then obtain x y z where ys: "ys = [x, y, z]"
    by (auto simp: numeral_3_eq_3 length_Suc_conv)
  have "x \<in> set [a, b, c]" using mset_eq_setD[OF h] ys by auto
  then consider "x = a" | "x = b" | "x = c" by auto
  then show ?thesis
  proof cases
    case 1
    with h ys have "mset [b, c] = mset [y, z]" by simp
    from mset2[OF this] 1 ys show ?thesis by auto
  next
    case 2
    have "mset [a, b, c] = add_mset b (mset [a, c])" by simp
    with h ys 2 have "add_mset b (mset [a, c]) = add_mset b (mset [y, z])"
      by (simp add: add_mset_commute)
    then have "mset [a, c] = mset [y, z]" by (simp only: add_mset_add_mset_same_iff)
    from mset2[OF this] 2 ys show ?thesis by auto
  next
    case 3
    have "mset [a, b, c] = add_mset c (mset [a, b])" by simp
    with h ys 3 have "add_mset c (mset [a, b]) = add_mset c (mset [y, z])"
      by (simp add: add_mset_commute)
    then have "mset [a, b] = mset [y, z]" by (simp only: add_mset_add_mset_same_iff)
    from mset2[OF this] 3 ys show ?thesis by auto
  qed
qed

lemma wildCount_mset:
  "mset xs = mset ys \<Longrightarrow> length (filter P xs) = length (filter P ys)"
  by (metis mset_filter size_mset)

lemma list_all_filter: "list_all P (filter Q xs) = (\<forall>x\<in>set xs. Q x \<longrightarrow> P x)"
  by (auto simp: list_all_iff)

lemma isJQKStraight_mset:
  assumes "mset xs = mset ys"
  shows "isJQKStraight xs = isJQKStraight ys"
  unfolding isJQKStraight_def Let_def list_all_filter set_map set_filter
    wildCount_mset[OF assms, of isWild] mset_eq_setD[OF assms]
  by (rule refl)

lemma flush_list:
  "(if length xs = 0 then True else list_all (\<lambda>c. suit c = suit (xs ! 0)) xs)
     = (\<forall>a\<in>set xs. \<forall>b\<in>set xs. suit a = suit b)"
  by (cases xs) (auto simp: list_all_iff)

lemma isJQKStraightFlush_mset:
  assumes "mset xs = mset ys"
  shows "isJQKStraightFlush xs = isJQKStraightFlush ys"
  unfolding isJQKStraightFlush_def Let_def flush_list set_filter
    isJQKStraight_mset[OF assms] mset_eq_setD[OF assms]
  by (rule refl)

lemma isThreeFaceCards_mset:
  assumes "mset xs = mset ys"
  shows "isThreeFaceCards xs = isThreeFaceCards ys"
  unfolding isThreeFaceCards_def list_all_iff mset_eq_setD[OF assms]
  by (rule refl)

lemma isSameSuitCards_mset:
  assumes "mset xs = mset ys"
  shows "isSameSuitCards xs = isSameSuitCards ys"
  unfolding isSameSuitCards_iff mset_eq_setD[OF assms]
  by (rule refl)

lemma foldl_add_sum:
  "foldl (\<lambda>acc c. if P c then acc else acc + g c) z cs
     = z + sum_list (map (\<lambda>c. if P c then 0 else g c) cs)"
  for z :: int
  by (induction cs arbitrary: z) auto

lemma sum_list_map_mset:
  "mset xs = mset ys \<Longrightarrow> sum_list (map f xs) = sum_list (map f ys)"
  for f :: "'a \<Rightarrow> int"
  by (metis mset_map sum_mset_sum_list)

lemma getSumModulo_mset:
  assumes "mset xs = mset ys"
  shows "getSumModulo xs = getSumModulo ys"
  unfolding getSumModulo_def foldl_add_sum sum_list_map_mset[OF assms]
  by (rule refl)

lemma foldl_plus_sum:
  "foldl (\<lambda>s c. s + g c) z cs = z + sum_list (map g cs)"
  for z :: int
  by (induction cs arbitrary: z) auto

lemma faceValue_mset:
  assumes "mset xs = mset ys"
  shows "foldl (\<lambda>s c. s + getComparisonRankValue (rank c)) 0 xs
           = foldl (\<lambda>s c. s + getComparisonRankValue (rank c)) 0 ys"
  unfolding foldl_plus_sum sum_list_map_mset[OF assms]
  by (rule refl)

lemma list_ex_mset:
  "mset xs = mset ys \<Longrightarrow> list_ex P xs = list_ex P ys"
  using mset_eq_setD[of xs ys] by (simp add: list_ex_iff)

lemma length3E:
  assumes "length xs = 3"
  obtains a b c where "xs = [a, b, c]"
  using assms by (auto simp: numeral_3_eq_3 length_Suc_conv)

lemma isThreeOfKind_3:
  "isThreeOfKind [a, b, c] =
     (if isWild a \<and> isWild b \<and> isWild c then \<lparr>isThree = True, hasWild = True, rankValue = 0\<rparr>
      else if isWild a \<and> isWild b then
        \<lparr>isThree = True, hasWild = True, rankValue = getComparisonRankValue (rank c)\<rparr>
      else if isWild a \<and> isWild c then
        \<lparr>isThree = True, hasWild = True, rankValue = getComparisonRankValue (rank b)\<rparr>
      else if isWild b \<and> isWild c then
        \<lparr>isThree = True, hasWild = True, rankValue = getComparisonRankValue (rank a)\<rparr>
      else if isWild a then
        (if rank b = rank c then
           \<lparr>isThree = True, hasWild = True, rankValue = getComparisonRankValue (rank b)\<rparr>
         else \<lparr>isThree = False, hasWild = False, rankValue = 0\<rparr>)
      else if isWild b then
        (if rank a = rank c then
           \<lparr>isThree = True, hasWild = True, rankValue = getComparisonRankValue (rank a)\<rparr>
         else \<lparr>isThree = False, hasWild = False, rankValue = 0\<rparr>)
      else if isWild c then
        (if rank a = rank b then
           \<lparr>isThree = True, hasWild = True, rankValue = getComparisonRankValue (rank a)\<rparr>
         else \<lparr>isThree = False, hasWild = False, rankValue = 0\<rparr>)
      else if rank a = rank b \<and> rank b = rank c then
        \<lparr>isThree = True, hasWild = False, rankValue = getComparisonRankValue (rank a)\<rparr>
      else \<lparr>isThree = False, hasWild = False, rankValue = 0\<rparr>)"
  by (cases "isWild a"; cases "isWild b"; cases "isWild c") (simp_all add: isThreeOfKind_def)

lemma isThreeOfKind_swap:
  "isThreeOfKind [a, b, c] = isThreeOfKind [b, a, c]"
  "isThreeOfKind [a, b, c] = isThreeOfKind [a, c, b]"
  unfolding isThreeOfKind_3 by auto

lemma isThreeOfKind_mset:
  assumes "length xs = 3" and "mset xs = mset ys"
  shows "isThreeOfKind xs = isThreeOfKind ys"
proof -
  obtain a b c where xs: "xs = [a, b, c]" using assms(1) by (rule length3E)
  from mset3[OF assms(2)[unfolded xs]] show ?thesis
    unfolding xs using isThreeOfKind_swap by (elim disjE) metis+
qed

lemma pure_rank:
  assumes "isThree (isThreeOfKind [a, b, c])" and "\<not> hasWild (isThreeOfKind [a, b, c])"
  shows "rank a = rank b \<and> rank b = rank c"
  using assms unfolding isThreeOfKind_3 by (simp split: if_splits)

lemma pure_rank_mset:
  assumes "length xs = 3" and "mset xs = mset ys"
    and "isThree (isThreeOfKind xs)" and "\<not> hasWild (isThreeOfKind xs)"
  shows "rank (xs ! 0) = rank (ys ! 0)"
proof -
  obtain a b c where xs: "xs = [a, b, c]" using assms(1) by (rule length3E)
  from pure_rank[OF assms(3,4)[unfolded xs]] mset3[OF assms(2)[unfolded xs]] show ?thesis
    unfolding xs by auto
qed

lemma evaluateHand_cards:
  "length cs = 3 \<Longrightarrow>
   evaluateHand (map Some cs) =
     (let threeOfKind = isThreeOfKind cs in
        if isThree threeOfKind \<and> \<not> hasWild threeOfKind then
          \<lparr>handType = THREE_OF_KIND_PURE, handValue = rankValue threeOfKind,
           description = ''Three of a kind: '' @ rankString (rank (cs ! 0)) @ ''s'',
           isSameSuit = None\<rparr>
        else if isJQKStraightFlush cs then
          \<lparr>handType = STRAIGHT_FLUSH_JQK, handValue = 100,
           description = ''Straight Flush J-Q-K'', isSameSuit = None\<rparr>
        else if isJQKStraight cs then
          \<lparr>handType = STRAIGHT_JQK, handValue = 100,
           description = ''Straight J-Q-K'', isSameSuit = None\<rparr>
        else if isThree threeOfKind \<and> hasWild threeOfKind then
          \<lparr>handType = THREE_OF_KIND_WILD, handValue = rankValue threeOfKind,
           description = ''Three of a kind (with wild): '' @ numberString (rankValue threeOfKind),
           isSameSuit = None\<rparr>
        else if isThreeFaceCards cs then
          \<lparr>handType = THREE_FACE_CARDS,
           handValue = foldl (\<lambda>s c. s + getComparisonRankValue (rank c)) 0 cs,
           description = ''Three face cards'', isSameSuit = None\<rparr>
        else
          let hasWildcard = list_ex (\<lambda>c. isWild c) cs; sameSuit = isSameSuitCards cs in
          if hasWildcard then
            \<lparr>handType = SUM_MODULO, handValue = 9,
             description = (if sameSuit then ''Sum: 9 (wild, same suit)'' else ''Sum: 9 (wild)''),
             isSameSuit = Some sameSuit\<rparr>
          else
            let sumMod = getSumModulo cs in
            \<lparr>handType = SUM_MODULO, handValue = sumMod,
             description = (if sameSuit then ''Sum: '' @ numberString sumMod @ '' (same suit)''
                            else ''Sum: '' @ numberString sumMod),
             isSameSuit = Some sameSuit\<rparr>)"
  unfolding evaluateHand_def by simp

lemma evaluateHand_mset:
  assumes "mset xs = mset ys"
  shows "evaluateHand (map Some xs) = evaluateHand (map Some ys)"
proof (cases "length xs = 3")
  case False
  then have "length ys \<noteq> 3" using mset_eq_length[OF assms] by simp
  with False show ?thesis by (simp add: evaluateHand_def)
next
  case True
  then have ly: "length ys = 3" using mset_eq_length[OF assms] by simp
  have sym: "mset ys = mset xs" using assms by simp
  show ?thesis
  proof (cases "isThree (isThreeOfKind xs) \<and> \<not> hasWild (isThreeOfKind xs)")
    case pure: True
    then have "rank (xs ! 0) = rank (ys ! 0)"
      using pure_rank_mset[OF True assms] by simp
    with pure show ?thesis
      unfolding evaluateHand_cards[OF True] evaluateHand_cards[OF ly] Let_def
        isThreeOfKind_mset[OF ly sym]
      by simp
  next
    case False
    then show ?thesis
      unfolding evaluateHand_cards[OF True] evaluateHand_cards[OF ly] Let_def
        isThreeOfKind_mset[OF ly sym] isJQKStraightFlush_mset[OF sym] isJQKStraight_mset[OF sym]
        isThreeFaceCards_mset[OF sym] faceValue_mset[OF sym] list_ex_mset[OF sym]
        isSameSuitCards_mset[OF sym] getSumModulo_mset[OF sym]
      by simp
  qed
qed


text \<open>Four of a kind depends on the cards only, not on where they are placed.\<close>

lemma map_of_setCount: "map_of (setCount r n kvs) = (map_of kvs)(r \<mapsto> n)"
  by (induction kvs) auto

lemma keys_setCount: "set (map fst (setCount r n kvs)) = insert r (set (map fst kvs))"
proof (induction kvs)
  case Nil
  then show ?case by simp
next
  case (Cons kv kvs)
  obtain k v where kv: "kv = (k, v)" by (cases kv)
  show ?case
  proof (cases "k = r")
    case True
    with kv show ?thesis by auto
  next
    case False
    with kv Cons.IH show ?thesis by auto
  qed
qed

lemma distinct_setCount: "distinct (map fst kvs) \<Longrightarrow> distinct (map fst (setCount r n kvs))"
proof (induction kvs)
  case Nil
  then show ?case by simp
next
  case (Cons kv kvs)
  obtain k v where kv: "kv = (k, v)" by (cases kv)
  show ?case
  proof (cases "k = r")
    case True
    with Cons.prems kv show ?thesis by simp
  next
    case False
    have "k \<notin> set (map fst (setCount r n kvs))"
      using Cons.prems kv False unfolding keys_setCount by simp
    with Cons kv False show ?thesis by simp
  qed
qed

lemma rankCount_snoc:
  "rankCount (cs @ [c]) r = rankCount cs r + (if \<not> isWild c \<and> rank c = r then 1 else 0)"
  by (simp add: rankCount_def)

lemma rankCount_nonneg: "0 \<le> rankCount cs r"
  by (simp add: rankCount_def)

lemma countRank_wild: "isWild c \<Longrightarrow> countRank rc c = rc"
  by (simp add: countRank_def)

lemma countRank_plain:
  "\<not> isWild c \<Longrightarrow>
   countRank rc c
     = setCount (rank c) ((case map_of rc (rank c) of None \<Rightarrow> 0 | Some n \<Rightarrow> n) + 1) rc"
  by (simp add: countRank_def)

lemma foldl_countRank:
  "distinct (map fst (foldl countRank [] cs))
   \<and> (\<forall>r. map_of (foldl countRank [] cs) r
            = (if rankCount cs r = 0 then None else Some (rankCount cs r)))"
proof (induction cs rule: rev_induct)
  case Nil
  then show ?case by (simp add: rankCount_def)
next
  case (snoc c cs)
  let ?rc = "foldl countRank [] cs"
  have d: "distinct (map fst ?rc)"
    and m: "\<And>r. map_of ?rc r = (if rankCount cs r = 0 then None else Some (rankCount cs r))"
    using snoc.IH by simp_all
  show ?case
  proof (cases "isWild c")
    case True
    then show ?thesis using d m by (simp add: countRank_wild rankCount_snoc)
  next
    case False
    have old: "(case map_of ?rc (rank c) of None \<Rightarrow> 0 | Some n \<Rightarrow> n) = rankCount cs (rank c)"
      by (simp add: m)
    have step: "foldl countRank [] (cs @ [c]) = setCount (rank c) (rankCount cs (rank c) + 1) ?rc"
      using False by (simp add: countRank_plain old)
    have pos: "rankCount cs (rank c) + 1 \<noteq> 0"
      using rankCount_nonneg[of cs "rank c"] by simp
    show ?thesis
      unfolding step map_of_setCount
      using distinct_setCount[OF d] m False pos by (simp add: rankCount_snoc)
  qed
qed

lemma fourOfAKindIn_iff: "fourOfAKindIn cs = (\<exists>r. 4 \<le> rankCount cs r)"
proof -
  let ?rc = "foldl countRank [] cs"
  have d: "distinct (map fst ?rc)"
    and m: "\<And>r. map_of ?rc r = (if rankCount cs r = 0 then None else Some (rankCount cs r))"
    using foldl_countRank[of cs] by simp_all
  have "fourOfAKindIn cs = (\<exists>kv\<in>set ?rc. 4 \<le> snd kv)"
    by (simp add: fourOfAKindIn_def list_ex_iff)
  also have "\<dots> = (\<exists>r n. (r, n) \<in> set ?rc \<and> 4 \<le> n)"
    by force
  also have "\<dots> = (\<exists>r n. map_of ?rc r = Some n \<and> 4 \<le> n)"
    by (simp only: map_of_eq_Some_iff[OF d])
  also have "\<dots> = (\<exists>r. 4 \<le> rankCount cs r)"
  proof
    assume "\<exists>r n. map_of ?rc r = Some n \<and> 4 \<le> n"
    then obtain r n where "map_of ?rc r = Some n" "4 \<le> n" by blast
    then have "4 \<le> rankCount cs r" unfolding m by (simp split: if_splits)
    then show "\<exists>r. 4 \<le> rankCount cs r" ..
  next
    assume "\<exists>r. 4 \<le> rankCount cs r"
    then obtain r where r: "4 \<le> rankCount cs r" ..
    then have "map_of ?rc r = Some (rankCount cs r)" unfolding m by simp
    with r show "\<exists>r n. map_of ?rc r = Some n \<and> 4 \<le> n" by blast
  qed
  finally show ?thesis .
qed

lemma rankCount_mset: "mset xs = mset ys \<Longrightarrow> rankCount xs r = rankCount ys r"
  using wildCount_mset[of xs ys] by (simp add: rankCount_def)

lemma fourOfAKindIn_mset: "mset xs = mset ys \<Longrightarrow> fourOfAKindIn xs = fourOfAKindIn ys"
  unfolding fourOfAKindIn_iff using rankCount_mset[of xs ys] by simp

text \<open>The score of an arrangement does not depend on the order of the cards within a layer.\<close>

lemma layerAllNines_mset:
  assumes "mset t = mset t'"
  shows "layerAllNines \<lparr>cards = map Some t\<rparr> = layerAllNines \<lparr>cards = map Some t'\<rparr>"
  unfolding layerAllNines_def Let_def
  by (simp add: mset_eq_length[OF assms] list_ex_mset[OF assms] evaluateHand_mset[OF assms])

lemma scoreArrangement_mset:
  assumes "mset t = mset t'" and "mset m = mset m'" and "mset b = mset b'"
  shows "scoreArrangement (arrange t m b) = scoreArrangement (arrange t' m' b')"
proof -
  have all: "mset (t @ m @ b) = mset (t' @ m' @ b')" using assms by simp
  have v: "validateArrangement (arrange t m b) = validateArrangement (arrange t' m' b')"
    unfolding validateArrangement_iff
    by (simp add: arrange_def evaluateLayer_def mset_eq_length[OF assms(1)]
          mset_eq_length[OF assms(2)] mset_eq_length[OF assms(3)] evaluateHand_mset[OF assms(1)]
          evaluateHand_mset[OF assms(2)] evaluateHand_mset[OF assms(3)])
  have s: "hasSpecialHandArrangement (arrange t m b) = hasSpecialHandArrangement (arrange t' m' b')"
    unfolding hasSpecialHandArrangement_def isAllNinesArrangement_def hasFourOfAKindArrangement_def
    using fourOfAKindIn_mset[OF all]
    by (simp add: arrange_def layerAllNines_mset[OF assms(1)] layerAllNines_mset[OF assms(2)]
          layerAllNines_mset[OF assms(3)] map_append[symmetric] del: map_append)
  have l: "layerSum (arrange t m b) = layerSum (arrange t' m' b')"
    unfolding layerSum_def
    by (simp add: arrange_def evaluateLayer_def evaluateHand_mset[OF assms(1)]
          evaluateHand_mset[OF assms(2)] evaluateHand_mset[OF assms(3)])
  show ?thesis
  proof (cases "validateArrangement (arrange t m b)")
    case True
    then show ?thesis
      using v s l by (simp add: scoreArrangement_formula)
  next
    case False
    then have "scoreArrangement (arrange t m b) = NegInfinity"
      using scoreArrangement_valid[of "arrange t m b"] by simp
    moreover from False v have "scoreArrangement (arrange t' m' b') = NegInfinity"
      using scoreArrangement_valid[of "arrange t' m' b'"] by simp
    ultimately show ?thesis by simp
  qed
qed


text \<open>
  The loops enumerate every partition of the nine positions into a bottom, a middle and a
  top group of three, each group in ascending order.
\<close>

lemma indices_upt: "indices = [0..<9]"
  by code_simp

lemma bottomChoices_iff:
  "bi \<in> set bottomChoices = (\<exists>b1 b2 b3. bi = [b1, b2, b3] \<and> b1 < b2 \<and> b2 < b3 \<and> b3 < 9)"
proof
  assume "bi \<in> set bottomChoices"
  then show "\<exists>b1 b2 b3. bi = [b1, b2, b3] \<and> b1 < b2 \<and> b2 < b3 \<and> b3 < 9"
    unfolding bottomChoices_def by auto
next
  assume "\<exists>b1 b2 b3. bi = [b1, b2, b3] \<and> b1 < b2 \<and> b2 < b3 \<and> b3 < 9"
  then obtain b1 b2 b3 where bi: "bi = [b1, b2, b3]" and lt: "b1 < b2" "b2 < b3" "b3 < 9"
    by blast
  have "\<exists>x\<in>{0..<7}. \<exists>y\<in>{Suc x..<8}. [b1, b2, b3] \<in> (\<lambda>z. [x, y, z]) ` {Suc y..<9}"
    by (rule bexI[of _ b1], rule bexI[of _ b2], rule image_eqI[of _ _ b3]) (use lt in simp_all)
  then show "bi \<in> set bottomChoices"
    unfolding bottomChoices_def bi by simp
qed

lemma middleChoices_iff:
  "mc \<in> set middleChoices = (\<exists>m1 m2 m3. mc = (m1, m2, m3) \<and> m1 < m2 \<and> m2 < m3 \<and> m3 < 6)"
proof
  assume "mc \<in> set middleChoices"
  then show "\<exists>m1 m2 m3. mc = (m1, m2, m3) \<and> m1 < m2 \<and> m2 < m3 \<and> m3 < 6"
    unfolding middleChoices_def by auto
next
  assume "\<exists>m1 m2 m3. mc = (m1, m2, m3) \<and> m1 < m2 \<and> m2 < m3 \<and> m3 < 6"
  then obtain m1 m2 m3 where mc: "mc = (m1, m2, m3)" and lt: "m1 < m2" "m2 < m3" "m3 < 6"
    by blast
  have "\<exists>x\<in>{0..<4}. \<exists>y\<in>{Suc x..<5}. (m1, m2, m3) \<in> (\<lambda>z. (x, y, z)) ` {Suc y..<6}"
    by (rule bexI[of _ m1], rule bexI[of _ m2], rule image_eqI[of _ _ m3]) (use lt in simp_all)
  then show "mc \<in> set middleChoices"
    unfolding middleChoices_def mc by simp
qed

lemma sorted3:
  assumes "distinct xs" and "length xs = 3"
  obtains a b c where "sort xs = [a, b, c]" and "a < b" and "b < c" and "set xs = {a, b, c}"
proof -
  have "length (sort xs) = 3" using assms(2) by simp
  then obtain a b c where s: "sort xs = [a, b, c]" by (rule length3E)
  have "sorted (sort xs)" and "distinct (sort xs)" using assms(1) by simp_all
  then have "a < b" "b < c" unfolding s by auto
  moreover have "set xs = {a, b, c}" using set_sort[of "\<lambda>x. x" xs] unfolding s by auto
  ultimately show ?thesis using s that by blast
qed

lemma strict_sorted_unique:
  "sorted_wrt (<) xs \<Longrightarrow> sorted_wrt (<) ys \<Longrightarrow> set xs = set ys \<Longrightarrow> xs = ys"
  for xs :: "nat list"
  by (simp add: strict_sorted_iff sorted_distinct_set_unique)

lemma strict_sorted_index_less:
  fixes xs :: "nat list"
  assumes "sorted_wrt (<) xs" and "p < length xs" and "q < length xs" and "xs ! p < xs ! q"
  shows "p < q"
proof (rule ccontr)
  assume "\<not> p < q"
  then consider "p = q" | "q < p" by linarith
  then show False
  proof cases
    case 1
    with assms(4) show False by simp
  next
    case 2
    from sorted_wrt_nth_less[OF assms(1) 2 assms(2)] assms(4) show False by simp
  qed
qed


lemma candidate_arrange:
  "candidate cs bi (p1, p2, p3) =
     arrange
       (map ((!) cs) (filter (\<lambda>i. i \<notin> set [filter (\<lambda>i. i \<notin> set bi) indices ! p1,
                                               filter (\<lambda>i. i \<notin> set bi) indices ! p2,
                                               filter (\<lambda>i. i \<notin> set bi) indices ! p3])
                        (filter (\<lambda>i. i \<notin> set bi) indices)))
       (map ((!) cs) [filter (\<lambda>i. i \<notin> set bi) indices ! p1,
                      filter (\<lambda>i. i \<notin> set bi) indices ! p2,
                      filter (\<lambda>i. i \<notin> set bi) indices ! p3])
       (map ((!) cs) bi)"
  by (simp add: candidate_def arrange_def Let_def comp_def)

lemma candidate_cover:
  assumes d: "distinct (it @ im @ ib)"
    and l: "length it = 3" "length im = 3" "length ib = 3"
    and u: "set (it @ im @ ib) = {..<9}"
  shows "\<exists>bi\<in>set bottomChoices. \<exists>mc\<in>set middleChoices.
           candidate cs bi mc
             = arrange (map ((!) cs) (sort it)) (map ((!) cs) (sort im)) (map ((!) cs) (sort ib))"
proof -
  have dt: "distinct it" and dm: "distinct im" and db: "distinct ib"
    and tm: "set it \<inter> set im = {}" and tb: "set it \<inter> set ib = {}"
    and mb: "set im \<inter> set ib = {}"
    using d by auto
  obtain b1 b2 b3 where sb: "sort ib = [b1, b2, b3]" and b12: "b1 < b2" and b23: "b2 < b3"
    and bset: "set ib = {b1, b2, b3}"
    using sorted3[OF db l(3)] by blast
  have "b3 \<in> {..<9}" using u bset by auto
  then have b9: "b3 < 9" by simp
  have bi: "sort ib \<in> set bottomChoices"
    unfolding bottomChoices_iff sb using b12 b23 b9 by blast
  define rem where "rem = filter (\<lambda>i. i \<notin> set (sort ib)) indices"
  have rs: "sorted_wrt (<) rem"
    unfolding rem_def indices_upt by (rule sorted_wrt_filter) simp
  have rset: "set rem = set it \<union> set im"
    using u tb mb unfolding rem_def indices_upt by auto
  obtain m1 m2 m3 where sm: "sort im = [m1, m2, m3]" and m12: "m1 < m2" and m23: "m2 < m3"
    and mset: "set im = {m1, m2, m3}"
    using sorted3[OF dm l(2)] by blast
  have "m1 \<in> set rem" "m2 \<in> set rem" "m3 \<in> set rem" using rset mset by auto
  then obtain p1 p2 p3 where p1: "p1 < length rem" "rem ! p1 = m1"
    and p2: "p2 < length rem" "rem ! p2 = m2" and p3: "p3 < length rem" "rem ! p3 = m3"
    unfolding in_set_conv_nth by blast
  have "distinct rem" using rs by (simp add: strict_sorted_iff)
  then have "card (set rem) = length rem" by (rule distinct_card)
  moreover have "card (set it \<union> set im) = 6"
    using dt dm tm l by (simp add: card_Un_disjoint distinct_card)
  ultimately have lr: "length rem = 6" using rset by simp
  have p12: "p1 < p2"
    using strict_sorted_index_less[OF rs p1(1) p2(1)] p1(2) p2(2) m12 by simp
  have p23: "p2 < p3"
    using strict_sorted_index_less[OF rs p2(1) p3(1)] p2(2) p3(2) m23 by simp
  have mc: "(p1, p2, p3) \<in> set middleChoices"
    unfolding middleChoices_iff using p12 p23 p3(1) lr by simp
  have top: "filter (\<lambda>i. i \<notin> set [m1, m2, m3]) rem = sort it"
  proof (rule strict_sorted_unique)
    show "sorted_wrt (<) (filter (\<lambda>i. i \<notin> set [m1, m2, m3]) rem)"
      using rs by (rule sorted_wrt_filter)
    show "sorted_wrt (<) (sort it)" using dt by (simp add: strict_sorted_iff)
    show "set (filter (\<lambda>i. i \<notin> set [m1, m2, m3]) rem) = set (sort it)"
      using rset mset tm by auto
  qed
  have "candidate cs (sort ib) (p1, p2, p3)
          = arrange (map ((!) cs) (sort it)) (map ((!) cs) (sort im)) (map ((!) cs) (sort ib))"
    unfolding candidate_arrange rem_def[symmetric] p1(2) p2(2) p3(2) top sm by (rule refl)
  with bi mc show ?thesis by blast
qed

lemma candidate_partition:
  assumes len: "length cs = 9" and bi: "bi \<in> set bottomChoices" and mc: "mc \<in> set middleChoices"
  shows "partitionOf cs (candidate cs bi mc)"
proof -
  obtain b1 b2 b3 where b: "bi = [b1, b2, b3]" and b12: "b1 < b2" and b23: "b2 < b3"
    and b9: "b3 < 9"
    using bi unfolding bottomChoices_iff by blast
  obtain p1 p2 p3 where p: "mc = (p1, p2, p3)" and p12: "p1 < p2" and p23: "p2 < p3"
    and p6: "p3 < 6"
    using mc unfolding middleChoices_iff by blast
  define rem where "rem = filter (\<lambda>i. i \<notin> set bi) indices"
  define mid where "mid = [rem ! p1, rem ! p2, rem ! p3]"
  define top where "top = filter (\<lambda>i. i \<notin> set mid) rem"
  have rs: "sorted_wrt (<) rem"
    unfolding rem_def indices_upt by (rule sorted_wrt_filter) simp
  have fb: "filter (\<lambda>i. i \<in> set bi) [0..<9] = bi"
  proof (rule strict_sorted_unique)
    show "sorted_wrt (<) (filter (\<lambda>i. i \<in> set bi) [0..<9])"
      by (rule sorted_wrt_filter) simp
    show "sorted_wrt (<) bi" unfolding b using b12 b23 by simp
    show "set (filter (\<lambda>i. i \<in> set bi) [0..<9]) = set bi"
      unfolding b using b12 b23 b9 by auto
  qed
  have "mset [0..<9] = mset (filter (\<lambda>i. i \<in> set bi) [0..<9])
                        + mset (filter (\<lambda>i. i \<notin> set bi) [0..<9])"
    unfolding mset_filter by (rule multiset_partition)
  then have m1: "mset [0..<9] = mset bi + mset rem"
    unfolding fb rem_def indices_upt .
  have "size (mset [0..<9]) = size (mset bi + mset rem)" using m1 by simp
  then have lr: "length rem = 6" unfolding b by simp
  have ms: "sorted_wrt (<) mid"
    unfolding mid_def
    using sorted_wrt_nth_less[OF rs p12] sorted_wrt_nth_less[OF rs p23] p12 p23 p6 lr by simp
  have msub: "set mid \<subseteq> set rem"
    unfolding mid_def using p12 p23 p6 lr by simp
  have fm: "filter (\<lambda>i. i \<in> set mid) rem = mid"
  proof (rule strict_sorted_unique)
    show "sorted_wrt (<) (filter (\<lambda>i. i \<in> set mid) rem)"
      using rs by (rule sorted_wrt_filter)
    show "sorted_wrt (<) mid" by (rule ms)
    show "set (filter (\<lambda>i. i \<in> set mid) rem) = set mid"
      using msub by auto
  qed
  have "mset rem = mset (filter (\<lambda>i. i \<in> set mid) rem) + mset (filter (\<lambda>i. i \<notin> set mid) rem)"
    unfolding mset_filter by (rule multiset_partition)
  then have m2: "mset rem = mset mid + mset top"
    unfolding fm top_def .
  have "size (mset rem) = size (mset mid + mset top)" using m2 by simp
  then have lt: "length top = 3" using lr unfolding mid_def by simp
  have all: "mset (top @ mid @ bi) = mset [0..<9]"
    using m1 m2 by simp
  have c: "candidate cs bi mc = arrange (map ((!) cs) top) (map ((!) cs) mid) (map ((!) cs) bi)"
    unfolding p candidate_arrange rem_def[symmetric] mid_def[symmetric] top_def[symmetric]
    by (rule refl)
  have "mset (map ((!) cs) top @ map ((!) cs) mid @ map ((!) cs) bi)
          = mset (map ((!) cs) (top @ mid @ bi))" by simp
  also have "\<dots> = mset (map ((!) cs) [0..<9])"
    unfolding mset_map all by (rule refl)
  also have "\<dots> = mset cs"
    using map_nth[of cs] len by simp
  finally have cards: "mset (map ((!) cs) top @ map ((!) cs) mid @ map ((!) cs) bi) = mset cs" .
  show ?thesis
    unfolding partitionOf_def c
    using lt cards by (intro exI[of _ "map ((!) cs) top"] exI[of _ "map ((!) cs) mid"]
        exI[of _ "map ((!) cs) bi"]) (simp add: mid_def b)
qed


text \<open>Every partition of the hand is, up to the order within its layers, a candidate.\<close>

lemma partition_indices:
  assumes "mset xs = mset cs"
  shows "\<exists>ix. mset ix = mset [0..<length cs] \<and> xs = map ((!) cs) ix"
proof -
  obtain ix where li: "length ix = length xs"
    and z: "mset (zip xs ix) = mset (zip cs [0..<length cs])"
    using ex_mset_zip_left[of cs "[0..<length cs]" xs] assms by auto
  have "mset ix = mset (map snd (zip xs ix))" using li by simp
  also have "\<dots> = mset (map snd (zip cs [0..<length cs]))"
    by (simp only: mset_map z)
  also have "\<dots> = mset [0..<length cs]" by simp
  finally have p: "mset ix = mset [0..<length cs]" .
  have "xs ! k = map ((!) cs) ix ! k" if k: "k < length xs" for k
  proof -
    have "(xs ! k, ix ! k) \<in> set (zip xs ix)"
      using k li by (auto simp: set_zip)
    then have "(xs ! k, ix ! k) \<in> set (zip cs [0..<length cs])"
      using mset_eq_setD[OF z] by simp
    then have "xs ! k = cs ! (ix ! k)" by (auto simp: set_zip)
    then show ?thesis using k li by simp
  qed
  then have "xs = map ((!) cs) ix"
    using li by (intro nth_equalityI) simp_all
  with p show ?thesis by blast
qed

lemma partition_candidate:
  assumes len: "length cs = 9" and part: "partitionOf cs a"
  shows "\<exists>c\<in>set (candidates cs). scoreArrangement c = scoreArrangement a"
proof -
  obtain t m b where a: "a = arrange t m b"
    and l: "length t = 3" "length m = 3" "length b = 3"
    and ms: "mset (t @ m @ b) = mset cs"
    using part unfolding partitionOf_def by blast
  obtain ix where p: "mset ix = mset [0..<9]" and x: "t @ m @ b = map ((!) cs) ix"
    using partition_indices[OF ms] len by auto
  have li: "length ix = 9" using mset_eq_length[OF p] by simp
  define it where "it = take 3 ix"
  define im where "im = take 3 (drop 3 ix)"
  define ib where "ib = drop 6 ix"
  have d6: "drop 3 (drop 3 ix) = drop 6 ix" by simp
  have "ix = take 3 ix @ drop 3 ix" by (rule append_take_drop_id[symmetric])
  also have "drop 3 ix = take 3 (drop 3 ix) @ drop 3 (drop 3 ix)"
    by (rule append_take_drop_id[symmetric])
  finally have split: "ix = it @ im @ ib"
    unfolding d6 it_def[symmetric] im_def[symmetric] ib_def[symmetric] .
  have lis: "length it = 3" "length im = 3" "length ib = 3"
    unfolding it_def im_def ib_def using li by simp_all
  have t: "t = map ((!) cs) it"
    using arg_cong[OF x, of "take 3"] l lis unfolding split by simp
  have m: "m = map ((!) cs) im"
    using arg_cong[OF x, of "\<lambda>ys. take 3 (drop 3 ys)"] l lis unfolding split by simp
  have b: "b = map ((!) cs) ib"
    using arg_cong[OF x, of "drop 6"] l lis unfolding split by simp
  have "distinct ix"
    using mset_eq_imp_distinct_iff[OF p] distinct_upt[of 0 9] by (rule iffD2)
  then have d: "distinct (it @ im @ ib)" unfolding split .
  have "set ix = set [0..<9]" by (rule mset_eq_setD[OF p])
  also have "\<dots> = {..<9}" unfolding set_upt by (rule atLeast0LessThan)
  finally have u: "set (it @ im @ ib) = {..<9}" unfolding split .
  obtain bi mc where bi: "bi \<in> set bottomChoices" and mc: "mc \<in> set middleChoices"
    and c: "candidate cs bi mc
             = arrange (map ((!) cs) (sort it)) (map ((!) cs) (sort im)) (map ((!) cs) (sort ib))"
    using candidate_cover[OF d lis u, of cs] by blast
  have "scoreArrangement (candidate cs bi mc) = scoreArrangement a"
    unfolding c a t m b by (rule scoreArrangement_mset) simp_all
  with candidates_member[OF bi mc, of cs] show ?thesis by blast
qed

text \<open>A hand value is at most 100, so an ordinary score stays far below 10000.\<close>

lemma getComparisonRankValue_le: "getComparisonRankValue r \<le> 14"
  by (cases r) simp_all

lemma isThreeOfKind_value_le: "rankValue (isThreeOfKind [a, b, c]) \<le> 14"
  unfolding isThreeOfKind_3 using getComparisonRankValue_le by simp

lemma length_nonNull_full: "None \<notin> set slots \<Longrightarrow> length (nonNull slots) = length slots"
  by (induction slots rule: nonNull.induct) auto

lemma evaluateHand_value_le: "handValue (evaluateHand slots) \<le> 100"
proof (cases "length slots \<noteq> 3 \<or> list_ex (\<lambda>c. c = None) slots")
  case True
  then show ?thesis by (auto simp: evaluateHand_def)
next
  case False
  then have "length (nonNull slots) = 3"
    using length_nonNull_full[of slots] by (simp add: list_ex_iff)
  then obtain a b c where n: "nonNull slots = [a, b, c]" by (rule length3E)
  have 1: "rankValue (isThreeOfKind [a, b, c]) \<le> 100"
    using isThreeOfKind_value_le[of a b c] by simp
  have 2: "foldl (\<lambda>s c. s + getComparisonRankValue (rank c)) 0 [a, b, c] \<le> 100"
    using getComparisonRankValue_le[of "rank a"] getComparisonRankValue_le[of "rank b"]
      getComparisonRankValue_le[of "rank c"] by simp
  have 3: "getSumModulo [a, b, c] \<le> 100"
    using getSumModulo_range[of "[a, b, c]"] by simp
  show ?thesis
    using False 1 2 3 unfolding evaluateHand_def n Let_def by simp
qed

lemma typeNumber_ge: "1 \<le> typeNumber t"
  by (cases t) simp_all

lemma layerSum_less: "layerSum a < 10000"
  unfolding layerSum_def evaluateLayer_def
  using evaluateHand_value_le[of "map Some (nonNull (cards (topLayer a)))"]
    evaluateHand_value_le[of "map Some (nonNull (cards (middleLayer a)))"]
    evaluateHand_value_le[of "map Some (nonNull (cards (bottomLayer a)))"]
    typeNumber_ge[of "handType (evaluateHand (map Some (nonNull (cards (topLayer a)))))"]
    typeNumber_ge[of "handType (evaluateHand (map Some (nonNull (cards (middleLayer a)))))"]
    typeNumber_ge[of "handType (evaluateHand (map Some (nonNull (cards (bottomLayer a)))))"]
  by (simp add: algebra_simps)

text \<open>
  The special hands of the search are those of the matchup: three layers of nine without
  a wildcard, or four placed cards of one rank that are not wildcards.
\<close>

lemma hasSpecialHandArrangement_iff:
  "hasSpecialHandArrangement a
     = ((nineLayer (topLayer a) \<and> nineLayer (middleLayer a) \<and> nineLayer (bottomLayer a))
        \<or> (\<exists>r. 4 \<le> rankCount (getCardsFromArrangement a) r))"
  by (simp add: hasSpecialHandArrangement_def isAllNinesArrangement_def
        hasFourOfAKindArrangement_def getCardsFromArrangement_def layerAllNines_iff
        fourOfAKindIn_iff)

lemma hasSpecialHand_arrangement:
  "arrangement p = Some a \<Longrightarrow> hasSpecialHand p = hasSpecialHandArrangement a"
  by (simp add: hasSpecialHand_def checkAllNines_def checkFourOfAKind_def
        getCardsFromArrangement_def hasSpecialHandArrangement_def isAllNinesArrangement_def
        hasFourOfAKindArrangement_def)

lemma partitionOf_cards:
  "partitionOf cs a \<Longrightarrow> mset (getCardsFromArrangement a) = mset cs"
  by (auto simp: partitionOf_def arrange_def getCardsFromArrangement_def nonNull_append)

lemma partitionOf_mset: "mset cs = mset cs' \<Longrightarrow> partitionOf cs a = partitionOf cs' a"
  by (simp add: partitionOf_def)

text \<open>No score is above 10000.\<close>

lemma scoreArrangement_le: "\<not> scoreGreater (scoreArrangement a) (Num 10000)"
proof (cases "validateArrangement a")
  case True
  then show ?thesis
    using layerSum_less[of a] by (simp add: scoreArrangement_formula)
next
  case False
  then have "scoreArrangement a = NegInfinity"
    using scoreArrangement_valid[of a] by simp
  then show ?thesis by simp
qed

text \<open>The search returns a valid partition of the hand that no partition outscores.\<close>

lemma findBestArrangement_best:
  assumes "length cs = 9"
  shows "partitionOf cs (findBestArrangement cs)"
    and "validateArrangement (findBestArrangement cs)"
    and "\<forall>a. partitionOf cs a \<longrightarrow>
           \<not> scoreGreater (scoreArrangement a) (scoreArrangement (findBestArrangement cs))"
proof -
  let ?r = "findBestArrangement cs"
  obtain k where k: "k < length (candidates cs)" and r: "?r = candidates cs ! k"
    and v: "validateArrangement (candidates cs ! k)"
    and mx: "\<forall>j<length (candidates cs).
               \<not> scoreGreater (scoreArrangement (candidates cs ! j))
                    (scoreArrangement (candidates cs ! k))"
    using findBestArrangement_first_best[OF assms] by blast
  have "?r \<in> set (candidates cs)" using k r by simp
  then obtain bi mc where "bi \<in> set bottomChoices" "mc \<in> set middleChoices"
    "?r = candidate cs bi mc"
    unfolding candidates_def by auto
  then show "partitionOf cs ?r"
    using candidate_partition[OF assms] by simp
  show "validateArrangement ?r" using v r by simp
  show "\<forall>a. partitionOf cs a \<longrightarrow> \<not> scoreGreater (scoreArrangement a) (scoreArrangement ?r)"
  proof (intro allI impI)
    fix a assume pa: "partitionOf cs a"
    obtain c where c: "c \<in> set (candidates cs)" "scoreArrangement c = scoreArrangement a"
      using partition_candidate[OF assms pa] by blast
    then obtain j where "j < length (candidates cs)" "candidates cs ! j = c"
      unfolding in_set_conv_nth by blast
    with mx c(2) r show "\<not> scoreGreater (scoreArrangement a) (scoreArrangement ?r)" by auto
  qed
qed

text \<open>
  C4. For a hand of nine cards \<open>findBestArrangement\<close> returns a partition of the hand into
  three layers of three that is valid and whose score no partition of the hand exceeds
  (every hand of nine cards has a valid partition). The score of a valid arrangement is
  10000 if it has a special hand, and otherwise the sum over the layers of
  (7 - category number) * 100 + tie-break value, which is below 10000; an arrangement that
  is not valid scores \<^verbatim>\<open>-Infinity\<close>. So when some valid partition has a special hand, the
  returned arrangement has one. An arrangement has a special hand when each of its three
  layers has three cards, none wild, and evaluates to the sum 9, or when four of its placed
  cards that are not wild have one rank; this is what \<open>hasSpecialHand\<close> of the matchup
  tells of a player with that arrangement.
\<close>

theorem findBestArrangement_optimal:
  assumes "length cs = 9"
  shows "partitionOf cs (findBestArrangement cs)
       \<and> validateArrangement (findBestArrangement cs)
       \<and> (\<forall>a. partitionOf cs a \<longrightarrow>
              \<not> scoreGreater (scoreArrangement a) (scoreArrangement (findBestArrangement cs)))
       \<and> (\<forall>a. validateArrangement a \<longrightarrow>
              scoreArrangement a
                = (if hasSpecialHandArrangement a then Num 10000 else Num (layerSum a)))
       \<and> (\<forall>a. \<not> validateArrangement a \<longrightarrow> scoreArrangement a = NegInfinity)
       \<and> (\<forall>a. layerSum a < 10000)
       \<and> ((\<exists>a. partitionOf cs a \<and> validateArrangement a \<and> hasSpecialHandArrangement a)
            \<longrightarrow> hasSpecialHandArrangement (findBestArrangement cs))
       \<and> (\<forall>a. hasSpecialHandArrangement a
              = ((nineLayer (topLayer a) \<and> nineLayer (middleLayer a)
                    \<and> nineLayer (bottomLayer a))
                 \<or> (\<exists>r. 4 \<le> rankCount (getCardsFromArrangement a) r)))
       \<and> (\<forall>a p. arrangement p = Some a \<longrightarrow> hasSpecialHand p = hasSpecialHandArrangement a)"
proof -
  let ?r = "findBestArrangement cs"
  note best = findBestArrangement_best[OF assms]
  have 4: "\<forall>a. validateArrangement a \<longrightarrow>
              scoreArrangement a
                = (if hasSpecialHandArrangement a then Num 10000 else Num (layerSum a))"
    using scoreArrangement_formula by blast
  have 5: "\<forall>a. \<not> validateArrangement a \<longrightarrow> scoreArrangement a = NegInfinity"
    using scoreArrangement_valid by blast
  have 6: "\<forall>a. layerSum a < 10000"
    using layerSum_less by blast
  have 7: "(\<exists>a. partitionOf cs a \<and> validateArrangement a \<and> hasSpecialHandArrangement a)
            \<longrightarrow> hasSpecialHandArrangement ?r"
  proof
    assume "\<exists>a. partitionOf cs a \<and> validateArrangement a \<and> hasSpecialHandArrangement a"
    then obtain a where a: "partitionOf cs a" "validateArrangement a"
        "hasSpecialHandArrangement a"
      by blast
    show "hasSpecialHandArrangement ?r"
    proof (rule ccontr)
      assume n: "\<not> hasSpecialHandArrangement ?r"
      have "scoreArrangement a = Num 10000"
        using a(2,3) by (simp add: scoreArrangement_formula)
      moreover have "scoreArrangement ?r = Num (layerSum ?r)"
        using best(2) n by (simp add: scoreArrangement_formula)
      ultimately have "scoreGreater (scoreArrangement a) (scoreArrangement ?r)"
        using layerSum_less[of ?r] by simp
      with best(3) a(1) show False by blast
    qed
  qed
  have 8: "\<forall>a. hasSpecialHandArrangement a
              = ((nineLayer (topLayer a) \<and> nineLayer (middleLayer a)
                    \<and> nineLayer (bottomLayer a))
                 \<or> (\<exists>r. 4 \<le> rankCount (getCardsFromArrangement a) r))"
    using hasSpecialHandArrangement_iff by blast
  have 9: "\<forall>a p. arrangement p = Some a \<longrightarrow> hasSpecialHand p = hasSpecialHandArrangement a"
    using hasSpecialHand_arrangement by blast
  show ?thesis
    by (intro conjI best(1) best(2) best(3) 4 5 6 7 8 9)
qed

text \<open>
  Two instances. The nine cards of the arrangement \<open>allNines\<close>, which is a valid partition
  of them with a special hand, have no four cards of one rank: the search returns an
  arrangement of score 10000 whose three layers are nines. The nine cards of the
  arrangement \<open>fourSevens\<close> hold four sevens: the search returns an arrangement of score
  10000 with the four sevens, a special hand of the player who plays it.
\<close>

theorem findBestArrangement_optimal_witness:
  "partitionOf nineHand (findBestArrangement nineHand)
   \<and> validateArrangement (findBestArrangement nineHand)
   \<and> scoreArrangement (findBestArrangement nineHand) = Num 10000
   \<and> nineLayer (topLayer (findBestArrangement nineHand))
   \<and> nineLayer (middleLayer (findBestArrangement nineHand))
   \<and> nineLayer (bottomLayer (findBestArrangement nineHand))
   \<and> partitionOf sevensHand (findBestArrangement sevensHand)
   \<and> validateArrangement (findBestArrangement sevensHand)
   \<and> scoreArrangement (findBestArrangement sevensHand) = Num 10000
   \<and> rankCount (getCardsFromArrangement (findBestArrangement sevensHand)) R7 = 4
   \<and> hasSpecialHand (playerWith ''S'' (Some (findBestArrangement sevensHand)))"
proof -
  let ?r = "findBestArrangement nineHand"
  let ?s = "findBestArrangement sevensHand"
  have len: "length nineHand = 9" by (simp add: nineHand_def)
  have p: "partitionOf nineHand allNines"
    unfolding partitionOf_def allNines_def nineHand_def
    by (intro exI conjI, rule refl) simp_all
  have v: "validateArrangement allNines" by code_simp
  have s: "hasSpecialHandArrangement allNines" by code_simp
  note t = findBestArrangement_optimal[OF len]
  have 1: "partitionOf nineHand ?r" and 2: "validateArrangement ?r"
    using t by blast+
  have 3: "hasSpecialHandArrangement ?r"
    using t p v s by blast
  have "scoreArrangement ?r = (if hasSpecialHandArrangement ?r then Num 10000 else Num (layerSum ?r))"
    using t 2 by blast
  with 3 have 4: "scoreArrangement ?r = Num 10000" by simp
  have "\<not> fourOfAKindIn nineHand" by code_simp
  then have "\<not> (\<exists>r. 4 \<le> rankCount nineHand r)"
    unfolding fourOfAKindIn_iff .
  then have "\<not> (\<exists>r. 4 \<le> rankCount (getCardsFromArrangement ?r) r)"
    using rankCount_mset[OF partitionOf_cards[OF 1]] by simp
  moreover have "hasSpecialHandArrangement ?r
          = ((nineLayer (topLayer ?r) \<and> nineLayer (middleLayer ?r) \<and> nineLayer (bottomLayer ?r))
             \<or> (\<exists>r. 4 \<le> rankCount (getCardsFromArrangement ?r) r))"
    using t by blast
  ultimately have 5: "nineLayer (topLayer ?r)" and 6: "nineLayer (middleLayer ?r)"
    and 7: "nineLayer (bottomLayer ?r)"
    using 3 by blast+
  have len': "length sevensHand = 9" by (simp add: sevensHand_def)
  have p': "partitionOf sevensHand fourSevens"
    unfolding partitionOf_def fourSevens_def sevensHand_def
    by (intro exI conjI, rule refl) simp_all
  have v': "validateArrangement fourSevens" by code_simp
  have s': "hasSpecialHandArrangement fourSevens" by code_simp
  note t' = findBestArrangement_optimal[OF len']
  have 8: "partitionOf sevensHand ?s" and 9: "validateArrangement ?s"
    using t' by blast+
  have sp: "hasSpecialHandArrangement ?s"
    using t' p' v' s' by blast
  have "scoreArrangement ?s = (if hasSpecialHandArrangement ?s then Num 10000 else Num (layerSum ?s))"
    using t' 9 by blast
  with sp have 10: "scoreArrangement ?s = Num 10000" by simp
  have "rankCount sevensHand R7 = 4" by code_simp
  then have 11: "rankCount (getCardsFromArrangement ?s) R7 = 4"
    using rankCount_mset[OF partitionOf_cards[OF 8], of R7] by simp
  have "arrangement (playerWith ''S'' (Some ?s)) = Some ?s"
    by (simp add: playerWith_def)
  then have 12: "hasSpecialHand (playerWith ''S'' (Some ?s))"
    using t' sp by blast
  show ?thesis
    by (intro conjI 1 2 4 5 6 7 8 9 10 11 12)
qed

text \<open>Removing the card at an index leaves the other cards, in their order.\<close>

lemma removeAt_length: "j < length cs \<Longrightarrow> length (removeAt j cs) = length cs - 1"
  by (simp add: removeAt_def)

lemma removeAt_nth:
  assumes "j < length cs"
  shows "removeAt j cs = map (\<lambda>k. if k < j then cs ! k else cs ! Suc k) [0..<length cs - 1]"
proof (rule nth_equalityI)
  show "length (removeAt j cs)
          = length (map (\<lambda>k. if k < j then cs ! k else cs ! Suc k) [0..<length cs - 1])"
    using assms by (simp add: removeAt_length)
next
  fix k assume "k < length (removeAt j cs)"
  then have k: "k < length cs - 1" using assms by (simp add: removeAt_length)
  have "removeAt j cs ! k = (if k < j then cs ! k else cs ! Suc k)"
    using assms k by (auto simp: removeAt_def nth_append min_def)
  then show "removeAt j cs ! k
          = map (\<lambda>k. if k < j then cs ! k else cs ! Suc k) [0..<length cs - 1] ! k"
    using k by simp
qed

lemma removeAt_mset:
  assumes "j < length cs"
  shows "add_mset (cs ! j) (mset (removeAt j cs)) = mset cs"
proof -
  have "mset cs = mset (take j cs @ cs ! j # drop (Suc j) cs)"
    using id_take_nth_drop[OF assms] by simp
  then show ?thesis by (simp add: removeAt_def)
qed

text \<open>
  C9. For a hand of ten cards \<open>chooseCardToDiscard\<close> returns the card at some index \<open>i\<close> of
  the hand such that no index gives a higher score of the best arrangement of the other
  nine cards, and every earlier index gives a strictly lower one: the first card of the
  highest score. That score is a number, not \<^verbatim>\<open>-Infinity\<close>. Here, for every index \<open>j\<close>,
  the nine cards \<open>removeAt j cs\<close> are the cards of the hand but the one at \<open>j\<close>, in their
  order, and the score \<open>discardScore cs j\<close> is the score of a valid arrangement of them
  that no arrangement of the hand without the card at \<open>j\<close> exceeds.
\<close>

theorem chooseCardToDiscard_best:
  assumes "length cs = 10"
  shows "\<exists>i<10. chooseCardToDiscard cs = Some (cs ! i)
           \<and> (\<forall>j<10. \<not> scoreGreater (discardScore cs j) (discardScore cs i))
           \<and> (\<forall>j<i. scoreGreater (discardScore cs i) (discardScore cs j))
           \<and> discardScore cs i \<noteq> NegInfinity
           \<and> (\<forall>j<10. removeAt j cs = map (\<lambda>k. if k < j then cs ! k else cs ! Suc k) [0..<9]
                  \<and> add_mset (cs ! j) (mset (removeAt j cs)) = mset cs
                  \<and> (\<exists>a. partitionOf (removeAt j cs) a \<and> validateArrangement a
                         \<and> scoreArrangement a = discardScore cs j)
                  \<and> (\<forall>rest a. add_mset (cs ! j) (mset rest) = mset cs \<and> partitionOf rest a
                         \<longrightarrow> \<not> scoreGreater (scoreArrangement a) (discardScore cs j)))"
proof -
  let ?xs = "[0..<length cs]"
  let ?st = "foldl (keepBest (discardScore cs) (\<lambda>i. cs ! i)) (cs ! 0, NegInfinity) ?xs"
  have res: "chooseCardToDiscard cs = Some (fst ?st)"
    using assms by (simp add: chooseCardToDiscard_def considerDiscard_keepBest)
  have len9: "length (removeAt j cs) = 9" if "j < 10" for j
    using assms that by (simp add: removeAt_length)
  have num: "discardScore cs j \<noteq> NegInfinity" if "j < 10" for j
    using findBestArrangement_best(2)[OF len9[OF that]]
    unfolding discardScore_def scoreArrangement_valid .
  have lx: "length ?xs = 10" using assms by simp
  have nth: "?xs ! j = j" if "j < 10" for j using that assms by simp
  have "scoreGreater (discardScore cs (?xs ! 0)) NegInfinity"
    using num[of 0] nth[of 0] by (simp add: scoreGreater_NegInfinity)
  then have "\<not> (\<forall>j<length ?xs. \<not> scoreGreater (discardScore cs (?xs ! j)) NegInfinity)"
    using lx by (metis zero_less_numeral)
  with foldl_keepBest[of "discardScore cs" "\<lambda>i. cs ! i" "cs ! 0" NegInfinity ?xs]
  obtain k where k: "k < length ?xs"
    and st: "?st = (cs ! (?xs ! k), discardScore cs (?xs ! k))"
    and mx: "\<forall>j<length ?xs. \<not> scoreGreater (discardScore cs (?xs ! j)) (discardScore cs (?xs ! k))"
    and fst: "\<forall>j<k. scoreGreater (discardScore cs (?xs ! k)) (discardScore cs (?xs ! j))"
    by blast
  have k10: "k < 10" using k lx by simp
  have a: "chooseCardToDiscard cs = Some (cs ! k)"
    using res st nth[OF k10] by simp
  have b: "\<forall>j<10. \<not> scoreGreater (discardScore cs j) (discardScore cs k)"
  proof (intro allI impI)
    fix j :: nat assume "j < 10"
    then show "\<not> scoreGreater (discardScore cs j) (discardScore cs k)"
      using mx lx nth[of j] nth[OF k10] by metis
  qed
  have c: "\<forall>j<k. scoreGreater (discardScore cs k) (discardScore cs j)"
  proof (intro allI impI)
    fix j assume jk: "j < k"
    then have "j < 10" using k10 by simp
    from fst jk nth[OF this] nth[OF k10]
    show "scoreGreater (discardScore cs k) (discardScore cs j)" by metis
  qed
  have d: "\<forall>j<10. removeAt j cs = map (\<lambda>k. if k < j then cs ! k else cs ! Suc k) [0..<9]
                  \<and> add_mset (cs ! j) (mset (removeAt j cs)) = mset cs
                  \<and> (\<exists>a. partitionOf (removeAt j cs) a \<and> validateArrangement a
                         \<and> scoreArrangement a = discardScore cs j)
                  \<and> (\<forall>rest a. add_mset (cs ! j) (mset rest) = mset cs \<and> partitionOf rest a
                         \<longrightarrow> \<not> scoreGreater (scoreArrangement a) (discardScore cs j))"
  proof (intro allI impI)
    fix j :: nat assume j: "j < 10"
    then have jl: "j < length cs" using assms by simp
    have n9: "length cs - 1 = 9" using assms by simp
    have d1: "removeAt j cs = map (\<lambda>k. if k < j then cs ! k else cs ! Suc k) [0..<9]"
      using removeAt_nth[OF jl] unfolding n9 .
    have d2: "add_mset (cs ! j) (mset (removeAt j cs)) = mset cs"
      by (rule removeAt_mset[OF jl])
    note best = findBestArrangement_best[OF len9[OF j]]
    have d3: "\<exists>a. partitionOf (removeAt j cs) a \<and> validateArrangement a
                         \<and> scoreArrangement a = discardScore cs j"
      using best(1) best(2) unfolding discardScore_def by blast
    have d4: "\<forall>rest a. add_mset (cs ! j) (mset rest) = mset cs \<and> partitionOf rest a
                         \<longrightarrow> \<not> scoreGreater (scoreArrangement a) (discardScore cs j)"
    proof (intro allI impI)
      fix rest a
      assume h: "add_mset (cs ! j) (mset rest) = mset cs \<and> partitionOf rest a"
      then have "add_mset (cs ! j) (mset rest) = add_mset (cs ! j) (mset (removeAt j cs))"
        using d2 by simp
      then have "mset rest = mset (removeAt j cs)" by simp
      then have "partitionOf (removeAt j cs) a"
        using h partitionOf_mset[of rest "removeAt j cs" a] by simp
      then show "\<not> scoreGreater (scoreArrangement a) (discardScore cs j)"
        using best(3) unfolding discardScore_def by blast
    qed
    show "removeAt j cs = map (\<lambda>k. if k < j then cs ! k else cs ! Suc k) [0..<9]
                  \<and> add_mset (cs ! j) (mset (removeAt j cs)) = mset cs
                  \<and> (\<exists>a. partitionOf (removeAt j cs) a \<and> validateArrangement a
                         \<and> scoreArrangement a = discardScore cs j)
                  \<and> (\<forall>rest a. add_mset (cs ! j) (mset rest) = mset cs \<and> partitionOf rest a
                         \<longrightarrow> \<not> scoreGreater (scoreArrangement a) (discardScore cs j))"
      by (intro conjI d1 d2 d3 d4)
  qed
  have e: "discardScore cs k \<noteq> NegInfinity" by (rule num[OF k10])
  show ?thesis
    by (intro exI[of _ k] conjI k10 a b c e d)
qed

text \<open>
  The instance: a wildcard followed by the nine cards of \<open>allNines\<close>. Without the
  wildcard the hand has the special hand \<open>allNines\<close>, of score 10000, and no score is above
  that, so the first card of the highest score is the wildcard at index 0.
\<close>

theorem chooseCardToDiscard_best_witness:
  "chooseCardToDiscard tenHand = Some (wildCard 1)
   \<and> removeAt 0 tenHand = nineHand
   \<and> discardScore tenHand 0 = Num 10000"
proof -
  have len: "length tenHand = 10" by (simp add: tenHand_def nineHand_def)
  from chooseCardToDiscard_best[OF len]
  obtain i where i: "i < 10"
    and ch: "chooseCardToDiscard tenHand = Some (tenHand ! i)"
    and first: "\<forall>j<i. scoreGreater (discardScore tenHand i) (discardScore tenHand j)"
    and rem: "\<forall>j<10. removeAt j tenHand
                       = map (\<lambda>k. if k < j then tenHand ! k else tenHand ! Suc k) [0..<9]
                  \<and> add_mset (tenHand ! j) (mset (removeAt j tenHand)) = mset tenHand
                  \<and> (\<exists>a. partitionOf (removeAt j tenHand) a \<and> validateArrangement a
                         \<and> scoreArrangement a = discardScore tenHand j)
                  \<and> (\<forall>rest a. add_mset (tenHand ! j) (mset rest) = mset tenHand
                                \<and> partitionOf rest a
                         \<longrightarrow> \<not> scoreGreater (scoreArrangement a) (discardScore tenHand j))"
    by (elim exE conjE)
  have opt: "\<forall>rest a. add_mset (tenHand ! 0) (mset rest) = mset tenHand \<and> partitionOf rest a
                         \<longrightarrow> \<not> scoreGreater (scoreArrangement a) (discardScore tenHand 0)"
    using rem by simp
  have m: "add_mset (tenHand ! 0) (mset nineHand) = mset tenHand"
    by (simp add: tenHand_def)
  have p: "partitionOf nineHand allNines"
    unfolding partitionOf_def allNines_def nineHand_def
    by (intro exI conjI, rule refl) simp_all
  have sA: "scoreArrangement allNines = Num 10000" by code_simp
  have n1: "\<not> scoreGreater (Num 10000) (discardScore tenHand 0)"
    using opt m p sA by metis
  have n2: "\<not> scoreGreater (discardScore tenHand 0) (Num 10000)"
    unfolding discardScore_def by (rule scoreArrangement_le)
  have ds0: "discardScore tenHand 0 = Num 10000"
    using n1 n2 by (cases "discardScore tenHand 0") auto
  have i0: "i = 0"
  proof (rule ccontr)
    assume "i \<noteq> 0"
    then have "scoreGreater (discardScore tenHand i) (discardScore tenHand 0)"
      using first by simp
    then have "scoreGreater (discardScore tenHand i) (Num 10000)"
      unfolding ds0 .
    then show False
      unfolding discardScore_def using scoreArrangement_le by blast
  qed
  have c0: "tenHand ! 0 = wildCard 1" by (simp add: tenHand_def)
  have 1: "chooseCardToDiscard tenHand = Some (wildCard 1)"
    using ch unfolding i0 c0 .
  have 2: "removeAt 0 tenHand = nineHand"
    by (simp add: removeAt_def tenHand_def)
  show ?thesis
    by (intro conjI 1 2 ds0)
qed

end
